theory Spec2Isabelle
  imports Main "HOL-Library.AList"
begin

section \<open>Strings and paths as the Python source uses them\<close>

text \<open>
  The source is Python 2 (\<open>xrange\<close>, \<open>raw_input\<close>, the builtin \<open>reduce\<close>): a \<open>str\<close> is a
  byte string, modelled as \<open>string\<close>. \<open>str.strip()\<close> without argument removes the six ASCII
  whitespace bytes from both ends.
\<close>

definition is_space :: "char \<Rightarrow> bool" where
  "is_space c = (c \<in> set [CHR '' '', CHR 0x09, CHR 0x0A, CHR 0x0B, CHR 0x0C, CHR 0x0D])"

definition lstrip :: "string \<Rightarrow> string" where
  "lstrip s = dropWhile is_space s"

definition rstrip :: "string \<Rightarrow> string" where
  "rstrip s = rev (dropWhile is_space (rev s))"

definition strip :: "string \<Rightarrow> string" where
  "strip s = rstrip (lstrip s)"

text \<open>\<open>s.split(sep)\<close> for a one-character separator: never an empty list.\<close>

fun py_split :: "char \<Rightarrow> string \<Rightarrow> string list" where
  "py_split sep [] = [[]]"
| "py_split sep (c # cs) =
     (if c = sep then [] # py_split sep cs
      else (case py_split sep cs of [] \<Rightarrow> [[c]] | l # ls \<Rightarrow> (c # l) # ls))"

text \<open>\<open>s.split()\<close> without argument: the maximal runs of non-whitespace bytes.\<close>

fun ws_fields :: "string \<Rightarrow> string list" where
  "ws_fields [] = [[]]"
| "ws_fields (c # cs) =
     (if is_space c then [] # ws_fields cs
      else (case ws_fields cs of [] \<Rightarrow> [[c]] | l # ls \<Rightarrow> (c # l) # ls))"

definition py_split_ws :: "string \<Rightarrow> string list" where
  "py_split_ws s = filter (\<lambda>f. f \<noteq> []) (ws_fields s)"

text \<open>\<open>sep.join(xs)\<close>.\<close>

fun py_join :: "string \<Rightarrow> string list \<Rightarrow> string" where
  "py_join sep [] = []"
| "py_join sep [x] = x"
| "py_join sep (x # y # ys) = x @ sep @ py_join sep (y # ys)"

definition startswith :: "string \<Rightarrow> string \<Rightarrow> bool" where
  "startswith s pre = (take (length pre) s = pre)"

definition endswith :: "string \<Rightarrow> string \<Rightarrow> bool" where
  "endswith s suf = (length suf \<le> length s \<and> drop (length s - length suf) s = suf)"

text \<open>\<open>sub in s\<close> on strings: \<open>sub\<close> occurs in \<open>s\<close> as a contiguous block.\<close>

fun py_in :: "string \<Rightarrow> string \<Rightarrow> bool" where
  "py_in sub [] = (sub = [])"
| "py_in sub (c # cs) = (startswith (c # cs) sub \<or> py_in sub cs)"

definition upper_char :: "char \<Rightarrow> char" where
  "upper_char c = (let n = (of_char c :: nat) in if 97 \<le> n \<and> n \<le> 122 then char_of (n - 32) else c)"

definition lower_char :: "char \<Rightarrow> char" where
  "lower_char c = (let n = (of_char c :: nat) in if 65 \<le> n \<and> n \<le> 90 then char_of (n + 32) else c)"

definition upper :: "string \<Rightarrow> string" where
  "upper s = map upper_char s"

definition lower :: "string \<Rightarrow> string" where
  "lower s = map lower_char s"

text \<open>\<open>str(n)\<close> for a non-negative integer: its decimal digits.\<close>

definition digit :: "nat \<Rightarrow> char" where
  "digit d = ''0123456789'' ! d"

function str :: "nat \<Rightarrow> string" where
  "str n = (if n < 10 then [digit n] else str (n div 10) @ [digit (n mod 10)])"
  by pat_completeness auto
termination
  by (relation "measure id") auto

declare str.simps [simp del]

text \<open>
  The normalisation of an output text, written twice in \<open>run_command_on_one_test\<close>
  (lines 318-319 and 327-328):
  \<^verbatim>\<open>x = h.read().strip().split('\n'); x = '\n'.join([line.strip() for line in x])\<close>
\<close>

definition normalize_output :: "string \<Rightarrow> string" where
  "normalize_output s = py_join [CHR 0x0A] (map strip (py_split (CHR 0x0A) (strip s)))"

text \<open>\<open>os.path.join(a, *p)\<close> of \<open>posixpath\<close>: an absolute component discards what precedes it.\<close>

definition join_step :: "string \<Rightarrow> string \<Rightarrow> string" where
  "join_step path b =
     (if startswith b ''/'' then b
      else if path = [] \<or> endswith path ''/'' then path @ b
      else path @ ''/'' @ b)"

definition os_path_join :: "string \<Rightarrow> string list \<Rightarrow> string" where
  "os_path_join a p = foldl join_step a p"

section \<open>The world the program runs in\<close>

text \<open>
  Every \<open>sys.exit(0)\<close> of the source is the result \<open>Exit\<close>, every uncaught exception a
  \<open>Raise\<close>. \<open>NameError\<close>, \<open>AttributeError\<close>, \<open>IOError\<close> and \<open>OSError\<close> are the exceptions
  the modelled functions can raise.
\<close>

datatype error = AttributeError | NameError | IOError | OSError

datatype 'a result = Return 'a | Exit | Raise error

datatype printed_item = Line string | Table "string list list"

text \<open>A response of the HTTP transport; \<open>body\<close> is the source's \<open>req.text\<close>.\<close>

record response =
  url :: string
  status_code :: int
  body :: string

text \<open>
  The mutable state. \<open>dirs\<close> are the paths for which \<open>os.path.isdir\<close> holds, compared as
  strings. \<open>files p\<close> are the regular files of the directory \<open>p\<close>, name and content, in the
  order of creation. \<open>executed\<close>, \<open>requested\<close> and \<open>printed\<close> record the commands given to
  \<open>os.system\<close>, the link lists given to \<open>grequests.map\<close> and what was written to standard
  output.
\<close>

record world =
  dirs :: "string set"
  files :: "string \<Rightarrow> (string \<times> string) list"
  executed :: "string list"
  requested :: "string list list"
  printed :: "printed_item list"

text \<open>The arguments dictionary \<open>args\<close> and the platform objects built from it.\<close>

record args =
  args_site :: string
  args_contest :: string
  args_problem :: "string option"
  args_force :: bool
  args_source :: string

datatype judge = Codeforces | Codechef | Spoj | Hackerrank

record platform =
  cls :: judge
  self_site :: string
  self_contest :: string
  self_problem :: "string option"
  force_download :: bool

text \<open>
  The collaborators, fixed for a run: the home and working directories, which paths are
  regular files, what a shell command returns (the status \<open>os.system\<close> gives back, and the
  text the command wrote to its redirected standard output), what the transport answers to
  a link in the \<open>k\<close>-th concurrent batch (\<open>None\<close> when the request failed altogether), what
  the page parser of a platform extracts from a response (\<open>None\<close> when the sample markers
  are missing), and the platform's \<open>scrape_problem\<close>.
\<close>

record env =
  home :: string
  cwd :: string
  isfile :: "string \<Rightarrow> bool"
  shell :: "string \<Rightarrow> int \<times> string"
  grq_get :: "nat \<Rightarrow> string \<Rightarrow> response option"
  page_cases :: "judge \<Rightarrow> response \<Rightarrow> (string list \<times> string list \<times> string) option"
  scrape_problem :: "platform \<Rightarrow> world \<Rightarrow> unit result \<times> world"

definition and_then ::
  "'a result \<times> world \<Rightarrow> ('a \<Rightarrow> world \<Rightarrow> 'b result \<times> world) \<Rightarrow> 'b result \<times> world" where
  "and_then m f =
     (case m of
        (Return x, w) \<Rightarrow> f x w
      | (Exit, w) \<Rightarrow> (Exit, w)
      | (Raise e, w) \<Rightarrow> (Raise e, w))"

definition print_line :: "string \<Rightarrow> world \<Rightarrow> world" where
  "print_line s w = w\<lparr>printed := printed w @ [Line s]\<rparr>"

definition cache_dir :: "env \<Rightarrow> string" where
  "cache_dir e = os_path_join (home e) [''.cache'', ''ACedIt'']"

text \<open>\<open>os.system(cmd)\<close>: the command is run and its status returned.\<close>

definition os_system :: "env \<Rightarrow> string \<Rightarrow> world \<Rightarrow> int \<times> world" where
  "os_system e cmd w = (fst (shell e cmd), w\<lparr>executed := executed w @ [cmd]\<rparr>)"

section \<open>Cache store\<close>

text \<open>
  \<open>os.makedirs(p)\<close> creates \<open>p\<close> and the missing directories above it, each empty, and
  raises \<open>OSError\<close> when \<open>p\<close> is there already.
\<close>

definition ancestors :: "string \<Rightarrow> string list" where
  "ancestors p = map (\<lambda>i. take i p) (filter (\<lambda>i. p ! i = CHR ''/'') [1..<length p])"

definition makedirs :: "string \<Rightarrow> world \<Rightarrow> unit result \<times> world" where
  "makedirs p w =
     (if p \<in> dirs w then (Raise OSError, w)
      else (let new = set (p # ancestors p) - dirs w
            in (Return (), w\<lparr>dirs := dirs w \<union> new,
                              files := (\<lambda>q. if q \<in> new then [] else files w q)\<rparr>)))"

definition check_cache ::
  "env \<Rightarrow> string \<Rightarrow> string \<Rightarrow> string option \<Rightarrow> world \<Rightarrow> bool result \<times> world" where
  "check_cache e site contest problem w =
     (case problem of
        None \<Rightarrow>
          (let p = os_path_join (cache_dir e) [site, contest]
           in if p \<notin> dirs w then and_then (makedirs p w) (\<lambda>_ w'. (Return False, w'))
              else (Return False, w))
      | Some prob \<Rightarrow>
          (let contest = (if site = ''spoj'' then [] else contest);
               p = os_path_join (cache_dir e) [site, contest, prob]
           in if p \<in> dirs w then (Return True, w)
              else and_then (makedirs p w) (\<lambda>_ w'. (Return False, w'))))"

text \<open>\<open>os.listdir(p)\<close> on a case directory (it holds regular files only).\<close>

definition listdir :: "string \<Rightarrow> world \<Rightarrow> string list result \<times> world" where
  "listdir p w = (if p \<in> dirs w then (Return (map fst (files w p)), w) else (Raise OSError, w))"

definition getTestCasesCount :: "string \<Rightarrow> world \<Rightarrow> nat result \<times> world" where
  "getTestCasesCount p w =
     and_then (listdir p w) (\<lambda>fs w'. (Return (length (filter (\<lambda>f. endswith f ''.a'') fs)), w'))"

text \<open>
  \<open>writeFile(os.path.join(testcases_path, name), content)\<close>: the file \<open>name\<close> of the
  directory is created or overwritten. It is only called after \<open>os.listdir\<close> succeeded on
  the directory.
\<close>

definition writeFile :: "string \<Rightarrow> string \<Rightarrow> string \<Rightarrow> world \<Rightarrow> world" where
  "writeFile d name content w = w\<lparr>files := (files w)(d := AList.update name content (files w d))\<rparr>"

definition store_files ::
  "env \<Rightarrow> string \<Rightarrow> string \<Rightarrow> string \<Rightarrow> string list \<Rightarrow> string list \<Rightarrow> string option \<Rightarrow> world
     \<Rightarrow> unit result \<times> world" where
  "store_files e site contest problem inputs outputs statement w =
     (let contest = (if site = ''spoj'' then [] else contest);
          testcases_path = os_path_join (cache_dir e) [site, contest, problem]
      in and_then (getTestCasesCount testcases_path w) (\<lambda>num_cases w0.
           let w1 = fold (\<lambda>(i, inp). writeFile testcases_path (str (i + num_cases)) inp)
                      (enumerate 0 inputs) w0;
               w2 = fold (\<lambda>(i, out). writeFile testcases_path (str (i + num_cases) @ ''.a'') out)
                      (enumerate 0 outputs) w1;
               w3 = (case statement of
                       None \<Rightarrow> w2
                     | Some s \<Rightarrow> if s \<noteq> [] then writeFile testcases_path ''statement.txt'' s w2 else w2)
           in (Return (), w3)))"

text \<open>
  \<open>handle_kbd_interrupt\<close>: the removal of the directory is commented out in the source,
  so the normalised contest is computed and not used.
\<close>

definition handle_kbd_interrupt :: "string \<Rightarrow> string \<Rightarrow> string option \<Rightarrow> world \<Rightarrow> world" where
  "handle_kbd_interrupt site contest problem w =
     (let w1 = print_line ''Cleaning up...'' w;
          contest = (if site = ''spoj'' then [] else contest)
      in print_line ''Done. Exiting gracefully.'' w1)"

section \<open>Platform adapters and acquisition\<close>

text \<open>
  The constructors of the four platform classes. \<open>Spoj\<close> upper-cases the problem code and
  so raises \<open>AttributeError\<close> on \<open>None\<close>; \<open>Hackerrank\<close> joins the words of the problem
  name with hyphens, in lower case.
\<close>

definition get_platform :: "args \<Rightarrow> platform result" where
  "get_platform a =
     (if args_site a = ''codeforces'' then
        Return \<lparr>cls = Codeforces, self_site = args_site a, self_contest = args_contest a,
                self_problem = args_problem a, force_download = args_force a\<rparr>
      else if args_site a = ''codechef'' then
        Return \<lparr>cls = Codechef, self_site = args_site a, self_contest = args_contest a,
                self_problem = args_problem a, force_download = args_force a\<rparr>
      else if args_site a = ''spoj'' then
        (case args_problem a of
           None \<Rightarrow> Raise AttributeError
         | Some p \<Rightarrow>
             Return \<lparr>cls = Spoj, self_site = args_site a, self_contest = args_contest a,
                     self_problem = Some (upper p), force_download = args_force a\<rparr>)
      else
        Return \<lparr>cls = Hackerrank, self_site = args_site a, self_contest = args_contest a,
                self_problem = (case args_problem a of
                                  None \<Rightarrow> None
                                | Some p \<Rightarrow> Some (lower (py_join ''-'' (py_split_ws p)))),
                force_download = args_force a\<rparr>)"

definition download_problem_testcases :: "env \<Rightarrow> args \<Rightarrow> world \<Rightarrow> unit result \<times> world" where
  "download_problem_testcases e a w =
     and_then (get_platform a, w) (\<lambda>platform w0.
       and_then (check_cache e (self_site platform) (self_contest platform) (self_problem platform) w0)
         (\<lambda>is_in_cache w1.
            if \<not> args_force a \<and> is_in_cache
            then (Exit, print_line ''Test cases found in cache...'' w1)
            else scrape_problem e platform w1))"

text \<open>
  \<open>parse_html\<close> of a platform class: the extraction itself is the collaborator
  \<open>page_cases\<close>; when it finds no cases the method prints, calls the interrupt handler and
  exits.
\<close>

definition not_found_message :: "judge \<Rightarrow> string" where
  "not_found_message j = (case j of Codeforces \<Rightarrow> ''Problem not found...'' | _ \<Rightarrow> ''Problem not found..'')"

definition parse_html ::
  "env \<Rightarrow> platform \<Rightarrow> response \<Rightarrow> world \<Rightarrow> (string list \<times> string list \<times> string) result \<times> world" where
  "parse_html e self req w =
     (case page_cases e (cls self) req of
        None \<Rightarrow>
          (Exit, handle_kbd_interrupt (self_site self) (self_contest self) (self_problem self)
                   (print_line (not_found_message (cls self)) w))
      | Some c \<Rightarrow> (Return c, w))"

text \<open>
  The problem code taken from the resolved URL of a response:
  \<open>response.url.split('/')[-1].split('?')[0]\<close> for Codeforces,
  \<open>response.url.split('/')[-1]\<close> for Codechef and Hackerrank.
\<close>

definition problem_of_url :: "judge \<Rightarrow> string \<Rightarrow> string" where
  "problem_of_url j u =
     (case j of
        Codeforces \<Rightarrow> hd (py_split (CHR ''?'') (last (py_split (CHR ''/'') u)))
      | _ \<Rightarrow> last (py_split (CHR ''/'') u))"

text \<open>Only Codeforces passes the statement text to \<open>store_files\<close>.\<close>

definition statement_of :: "judge \<Rightarrow> string \<Rightarrow> string option" where
  "statement_of j txt = (case j of Codeforces \<Rightarrow> Some txt | _ \<Rightarrow> None)"

text \<open>
  The loop \<open>for response in responses\<close> of \<open>handle_batch_requests\<close>, the same in the three
  classes that have the method. A response that is \<open>None\<close> fails the test
  \<open>response is not None and response.status_code == 200\<close>, and the \<open>else\<close> branch reads
  \<open>response.url\<close> of it.
\<close>

fun handle_responses ::
  "env \<Rightarrow> platform \<Rightarrow> response option list \<Rightarrow> string list \<Rightarrow> world
     \<Rightarrow> (platform \<times> string list) result \<times> world" where
  "handle_responses e self [] failed_requests w = (Return (self, failed_requests), w)"
| "handle_responses e self (None # rest) failed_requests w = (Raise AttributeError, w)"
| "handle_responses e self (Some r # rest) failed_requests w =
     (if status_code r = 200 then
        and_then (parse_html e self r w) (\<lambda>(inputs, outputs, txt) w1.
          (let self1 = self\<lparr>self_problem := Some (problem_of_url (cls self) (url r))\<rparr>
           in and_then (check_cache e (self_site self1) (self_contest self1) (self_problem self1) w1)
                (\<lambda>_ w2.
                   and_then (store_files e (self_site self1) (self_contest self1)
                               (problem_of_url (cls self) (url r)) inputs outputs
                               (statement_of (cls self) txt) w2)
                     (\<lambda>_ w3. handle_responses e self1 rest failed_requests w3))))
      else handle_responses e self rest (failed_requests @ [url r]) w)"





section \<open>Execution harness\<close>

datatype verdict = AC | WA | RTE | TLE

definition color_GREEN :: string where "color_GREEN = CHR 0x1B # ''[92m''"
definition color_YELLOW :: string where "color_YELLOW = CHR 0x1B # ''[93m''"
definition color_RED :: string where "color_RED = CHR 0x1B # ''[91m''"
definition color_ENDC :: string where "color_ENDC = CHR 0x1B # ''[0m''"
definition color_BOLD :: string where "color_BOLD = CHR 0x1B # ''[1m''"

text \<open>The dictionary \<open>Utilities.verdicts\<close>.\<close>

definition verdicts :: "verdict \<Rightarrow> string" where
  "verdicts v =
     (case v of
        AC \<Rightarrow> color_BOLD @ color_GREEN @ ''AC'' @ color_ENDC
      | WA \<Rightarrow> color_BOLD @ color_RED @ ''WA'' @ color_ENDC
      | RTE \<Rightarrow> color_BOLD @ color_RED @ ''RTE'' @ color_ENDC
      | TLE \<Rightarrow> color_BOLD @ color_YELLOW @ ''TLE'' @ color_ENDC)"

text \<open>
  \<open>run_command_on_one_test\<close>. The shell writes the standard output of the command to
  \<open>temp_output<i>\<close>, which only this function reads back: the model hands the text over as
  the second component of \<open>shell e cmd\<close>. Opening the expected-output file raises
  \<open>IOError\<close> when it is missing.
\<close>

definition test_command :: "string \<Rightarrow> nat \<Rightarrow> string \<Rightarrow> string" where
  "test_command testcases_path testcase_number execute_command =
     ''timeout 2s '' @ execute_command @ '' < ''
       @ os_path_join testcases_path [str testcase_number]
       @ '' > temp_output'' @ str testcase_number"

definition run_command_on_one_test ::
  "env \<Rightarrow> string \<Rightarrow> nat \<Rightarrow> string \<Rightarrow> world \<Rightarrow> (string \<times> string \<times> string) result \<times> world" where
  "run_command_on_one_test e testcases_path testcase_number execute_command w =
     (let cmd = test_command testcases_path testcase_number execute_command;
          (status, w1) = os_system e cmd w;
          temp_output = snd (shell e cmd)
      in case map_of (files w1 testcases_path) (str testcase_number @ ''.a'') of
           None \<Rightarrow> (Raise IOError, w1)
         | Some content \<Rightarrow>
             (let expected_output = normalize_output content
              in if status = 124 then (Return (expected_output, [], verdicts TLE), w1)
                 else if status = 0 then
                   (let user_output = normalize_output temp_output
                    in if expected_output = user_output
                       then (Return (expected_output, user_output, verdicts AC), w1)
                       else (Return (expected_output, user_output, verdicts WA), w1))
                 else (Return (expected_output, [], verdicts RTE), w1)))"

text \<open>The loop \<open>for i in xrange(num_cases)\<close> over \<open>run_command_on_one_test\<close>.\<close>

fun run_tests ::
  "env \<Rightarrow> string \<Rightarrow> string \<Rightarrow> nat list \<Rightarrow> world \<Rightarrow> (string \<times> string \<times> string) list result \<times> world" where
  "run_tests e testcases_path execute_command [] w = (Return [], w)"
| "run_tests e testcases_path execute_command (i # rest) w =
     and_then (run_command_on_one_test e testcases_path i execute_command w) (\<lambda>t w1.
       and_then (run_tests e testcases_path execute_command rest w1) (\<lambda>ts w2.
         (Return (t # ts), w2)))"

fun input_file_to_string :: "string \<Rightarrow> nat list \<Rightarrow> world \<Rightarrow> string list result \<times> world" where
  "input_file_to_string path [] w = (Return [], w)"
| "input_file_to_string path (i # rest) w =
     (case map_of (files w path) (str i) of
        None \<Rightarrow> (Raise IOError, w)
      | Some content \<Rightarrow>
          and_then (input_file_to_string path rest w) (\<lambda>inputs w1. (Return (content # inputs), w1)))"

text \<open>The two tables of \<open>run_solution\<close>, by file extension.\<close>

definition supported_extensions :: "string list" where
  "supported_extensions = [''c'', ''cpp'', ''java'', ''py'', ''hs'', ''rb'', ''kt'']"

definition compiler :: "string \<Rightarrow> string \<Rightarrow> string option" where
  "compiler extension basename =
     (if extension = ''hs'' then Some (''ghc --make -O -dynamic -o '' @ basename)
      else if extension = ''py'' then None
      else if extension = ''rb'' then None
      else if extension = ''c'' then
        Some (''gcc -static -DONLINE_JUDGE -fno-asm -lm -s -O2 -o '' @ basename)
      else if extension = ''cpp'' then
        Some (''clang++ -DONLINE_JUDGE -include /home/igorjan/206round/bits.h -O2 -std=c++17 -o ''
                @ basename)
      else if extension = ''java'' then Some ''javac -d .''
      else Some ''kotlinc -d .'')"

definition execute_command_of :: "string \<Rightarrow> string \<Rightarrow> string" where
  "execute_command_of extension basename =
     (if extension = ''py'' then ''python '' @ basename @ ''.'' @ extension
      else if extension = ''rb'' then ''ruby '' @ basename @ ''.'' @ extension
      else if extension = ''hs'' then ''./'' @ basename
      else if extension = ''c'' then ''./'' @ basename
      else if extension = ''cpp'' then ''./'' @ basename
      else if extension = ''java'' then
        ''java -DONLINE_JUDGE=true -Duser.language=en -Duser.region=US -Duser.variant=US '' @ basename
      else
        ''kotlin -DONLINE_JUDGE=true -Duser.language=en -Duser.region=US -Duser.variant=US ''
          @ basename @ ''Kt'')"

text \<open>
  A row of the report (lines 417-424):
  \<^verbatim>\<open>user_outputs[i] if any(sub in results[i] for sub in ['AC', 'WA']) else 'N/A'\<close>
\<close>

definition table_row :: "nat \<Rightarrow> string \<Rightarrow> string \<times> string \<times> string \<Rightarrow> string list" where
  "table_row i inp t =
     (case t of (expected_output, user_output, res) \<Rightarrow>
        [str (i + 1), inp, expected_output,
         if list_ex (\<lambda>sub. py_in sub res) [''AC'', ''WA''] then user_output else ''N/A'',
         res])"

definition table_header :: "string list" where
  "table_header = [''Serial No'', ''Input'', ''Expected Output'', ''Your Output'', ''Result'']"

definition table_data :: "string list \<Rightarrow> (string \<times> string \<times> string) list \<Rightarrow> string list list" where
  "table_data inputs ts = table_header # map (\<lambda>(i, inp, t). table_row i inp t) (zip [0..<length ts] (zip inputs ts))"

text \<open>\<open>cleanup\<close>: for Java the class files are removed by a shell command.\<close>

definition cleanup :: "env \<Rightarrow> nat \<Rightarrow> string \<Rightarrow> string \<Rightarrow> world \<Rightarrow> world" where
  "cleanup e num_cases basename extension w =
     (if extension = ''java'' then snd (os_system e (''rm '' @ basename @ ''*.class'') w) else w)"

text \<open>
  The branch of \<open>run_solution\<close> taken when the case directory exists (lines 365-433). On a
  non-zero compile status the source builds the message and calls \<open>prin\<close>, a name that is
  bound nowhere: the call raises \<open>NameError\<close> before anything is printed.
\<close>

definition run_cached ::
  "env \<Rightarrow> string \<Rightarrow> string \<Rightarrow> string \<Rightarrow> string \<Rightarrow> world \<Rightarrow> unit result \<times> world" where
  "run_cached e extension basename problem_path testcases_path w =
     and_then (getTestCasesCount testcases_path w) (\<lambda>num_cases w0.
       if extension \<in> set supported_extensions then
         (let (compile_status, w1) =
                (case compiler extension basename of
                   None \<Rightarrow> (0, w0)
                 | Some c \<Rightarrow>
                     os_system e (c @ '' '' @ [CHR 0x27] @ problem_path @ ''.'' @ extension @ [CHR 0x27]) w0)
          in if compile_status = 0 then
               and_then (run_tests e testcases_path (execute_command_of extension basename)
                           [0..<num_cases] w1) (\<lambda>ts w2.
                 and_then (input_file_to_string testcases_path [0..<num_cases] w2) (\<lambda>inputs w3.
                   (Return (),
                    cleanup e num_cases basename extension
                      (w3\<lparr>printed := printed w3 @ [Table (table_data inputs ts)]\<rparr>))))
             else (Raise NameError, w1))
       else (Exit, print_line ''Supports only C, C++, Python, Java and Kotlin as of now.'' w0))"

text \<open>
  \<open>run_solution\<close>. \<open>problem_code_of\<close> is line 358 and \<open>testcases_path_of\<close> lines 359-362.
  On a cache miss the function downloads and calls itself again; the recursion is bounded
  by \<open>fuel\<close>, and \<open>None\<close> is the run that has not returned within it.
\<close>

definition problem_code_of :: "args \<Rightarrow> string" where
  "problem_code_of a =
     (let problem = hd (py_split (CHR ''.'') (args_source a))
      in case args_problem a of
           None \<Rightarrow> problem
         | Some p \<Rightarrow> if p \<noteq> [] then p else problem)"

definition testcases_path_of :: "env \<Rightarrow> args \<Rightarrow> string" where
  "testcases_path_of e a =
     (let problem_code = problem_code_of a;
          contest_code = (if args_site a = ''spoj'' then [] else args_contest a)
      in os_path_join (cache_dir e) [args_site a, contest_code, problem_code])"

fun run_solution :: "nat \<Rightarrow> env \<Rightarrow> args \<Rightarrow> world \<Rightarrow> (unit result \<times> world) option" where
  "run_solution 0 e a w = None"
| "run_solution (Suc fuel) e a w =
     (let extension = last (py_split (CHR ''.'') (args_source a));
          problem = hd (py_split (CHR ''.'') (args_source a));
          basename = last (py_split (CHR ''/'') problem);
          problem_path = os_path_join (cwd e) [problem]
      in if \<not> isfile e (problem_path @ ''.'' @ extension)
         then Some (Exit, print_line ''ERROR : No such file'' w)
         else
          (let problem_code = problem_code_of a;
               testcases_path = testcases_path_of e a
           in if testcases_path \<in> dirs w
              then Some (run_cached e extension basename problem_path testcases_path w)
              else
               (let w1 = print_line ''Test cases not found locally...'' w;
                    a1 = a\<lparr>args_problem := Some problem_code, args_force := True,
                           args_source := problem @ ''.'' @ extension\<rparr>
                in case download_problem_testcases e a1 w1 of
                     (Return u, w2) \<Rightarrow>
                       run_solution fuel e a1
                         (print_line ''Running your solution against sample cases...'' w2)
                   | (Exit, w2) \<Rightarrow> Some (Exit, w2)
                   | (Raise x, w2) \<Rightarrow> Some (Raise x, w2))))"

section \<open>Predicates used to state the properties\<close>

text \<open>A text that is empty or has no whitespace byte at either end.\<close>

definition clean :: "string \<Rightarrow> bool" where
  "clean s = (s = [] \<or> (\<not> is_space (hd s) \<and> \<not> is_space (last s)))"

text \<open>
  A case directory holding exactly the cases \<open>0, \<dots>, n - 1\<close>: no name occurs twice, the
  files ending in \<open>.a\<close> are the outputs \<open>0.a, \<dots>, (n-1).a\<close>, and the files with a decimal
  name are the inputs \<open>0, \<dots>, n - 1\<close>. The empty directory that \<open>check_cache\<close> creates is
  such a directory with \<open>n = 0\<close>.
\<close>

definition wf_cases :: "(string \<times> string) list \<Rightarrow> nat \<Rightarrow> bool" where
  "wf_cases d n =
     (distinct (map fst d)
      \<and> (\<forall>f \<in> set (map fst d). endswith f ''.a'' \<longrightarrow> (\<exists>k<n. f = str k @ ''.a''))
      \<and> (\<forall>k. (str k @ ''.a'' \<in> set (map fst d)) = (k < n))
      \<and> (\<forall>k. (str k \<in> set (map fst d)) = (k < n)))"

section \<open>The classification as the specification words it\<close>

text \<open>
  What \<open>os.system\<close> returns on the platform the commands are written for is the wait
  status of the shell: a command that exits with the code \<open>c\<close> gives \<open>c * 256\<close>. The
  utility \<open>timeout\<close> exits with the code 124 when it had to stop the command, so the status
  of a case that ran out of time is \<open>124 * 256 = 31744\<close>.
\<close>

definition wait_status :: "int \<Rightarrow> int" where
  "wait_status exit_code = exit_code * 256"

definition timeout_status :: int where
  "timeout_status = wait_status 124"

text \<open>
  The specification's table: a status that indicates a timeout gives TLE whatever the
  outputs; status zero gives AC when the normalised texts are equal and WA otherwise; any
  other status gives RTE.
\<close>

definition spec_verdict :: "int \<Rightarrow> string \<Rightarrow> string \<Rightarrow> verdict" where
  "spec_verdict status expected actual =
     (if status = timeout_status then TLE
      else if status = 0 then (if expected = actual then AC else WA)
      else RTE)"

section \<open>Concrete inputs\<close>

definition no_scrape :: "platform \<Rightarrow> world \<Rightarrow> unit result \<times> world" where
  "no_scrape pf w = (Return (), w)"

definition empty_world :: world where
  "empty_world = \<lparr>dirs = {}, files = (\<lambda>p. []), executed = [], requested = [], printed = []\<rparr>"

text \<open>A run whose every command succeeds and prints \<open>6\<close> and a newline.\<close>

definition env_six :: env where
  "env_six = \<lparr>home = ''/h'', cwd = ''/w'', isfile = (\<lambda>p. True),
               shell = (\<lambda>cmd. (0, ''6'' @ [CHR 0x0A])),
               grq_get = (\<lambda>k link. None), page_cases = (\<lambda>j r. None),
               scrape_problem = no_scrape\<rparr>"

definition world_one_case :: world where
  "world_one_case = empty_world\<lparr>dirs := {''/h/.cache/ACedIt/codeforces/1/A''},
       files := (\<lambda>p. if p = ''/h/.cache/ACedIt/codeforces/1/A''
                      then [(''0'', ''1 2 3''), (''0.a'', ''6'')] else [])\<rparr>"

definition args_A :: args where
  "args_A = \<lparr>args_site = ''codeforces'', args_contest = ''1'', args_problem = Some ''A'',
              args_force = False, args_source = ''A.cpp''\<rparr>"

definition platform_A :: platform where
  "platform_A = \<lparr>cls = Codeforces, self_site = ''codeforces'', self_contest = ''1'',
                  self_problem = Some ''A'', force_download = False\<rparr>"

definition world_empty_case :: world where
  "world_empty_case = empty_world\<lparr>dirs := {''/h/.cache/ACedIt/codeforces/1/B''}\<rparr>"




text \<open>A solution that runs out of time: \<open>timeout\<close> stops it and exits with 124.\<close>

definition env_timeout :: env where
  "env_timeout = env_six\<lparr>shell := (\<lambda>cmd. (timeout_status, []))\<rparr>"

text \<open>A compiler that fails: every command returns the status 256.\<close>

definition env_compile_fail :: env where
  "env_compile_fail = env_six\<lparr>shell := (\<lambda>cmd. (256, []))\<rparr>"

section \<open>Normalisation\<close>

lemma py_split_nonempty: "py_split sep s \<noteq> []"
  by (induction s) (auto split: list.splits)

lemma py_split_no_sep: "l \<in> set (py_split sep s) \<Longrightarrow> sep \<notin> set l"
  by (induction s arbitrary: l) (auto split: list.splits if_splits)

lemma py_split_id: "sep \<notin> set x \<Longrightarrow> py_split sep x = [x]"
  by (induction x) auto

lemma py_split_append: "sep \<notin> set x \<Longrightarrow> py_split sep (x @ sep # r) = x # py_split sep r"
  by (induction x) auto

lemma py_split_join:
  "ls \<noteq> [] \<Longrightarrow> \<forall>l \<in> set ls. sep \<notin> set l \<Longrightarrow> py_split sep (py_join [sep] ls) = ls"
  by (induction "[sep]" ls rule: py_join.induct) (auto simp: py_split_id py_split_append)

lemma rstrip_nil_fix [simp]: "rstrip [] = []" by (simp add: rstrip_def)

lemma rstrip_Cons: "rstrip (c # cs) = (if rstrip cs = [] \<and> is_space c then [] else c # rstrip cs)"
  by (auto simp: rstrip_def dropWhile_append dropWhile_eq_Nil_conv)

lemma rstrip_last: "rstrip s \<noteq> [] \<Longrightarrow> \<not> is_space (last (rstrip s))"
  unfolding rstrip_def by (simp add: last_rev hd_dropWhile)

lemma rstrip_hd: "rstrip s \<noteq> [] \<Longrightarrow> hd (rstrip s) = hd s"
  by (cases s) (auto simp: rstrip_Cons split: if_splits)

lemma rstrip_fix: "s \<noteq> [] \<Longrightarrow> \<not> is_space (last s) \<Longrightarrow> rstrip s = s"
  unfolding rstrip_def by (cases s rule: rev_cases) auto

lemma lstrip_fix: "s \<noteq> [] \<Longrightarrow> \<not> is_space (hd s) \<Longrightarrow> lstrip s = s"
  unfolding lstrip_def by (cases s) auto

lemma lstrip_hd: "lstrip s \<noteq> [] \<Longrightarrow> \<not> is_space (hd (lstrip s))"
  unfolding lstrip_def by (simp add: hd_dropWhile)

lemma clean_strip: "clean (strip s)"
  unfolding clean_def strip_def
  using rstrip_last rstrip_hd lstrip_hd
  by (metis rstrip_nil_fix)

lemma strip_clean: "clean s \<Longrightarrow> strip s = s"
proof (cases "s = []")
  case True
  then show ?thesis by (simp add: strip_def lstrip_def)
next
  case False
  assume "clean s"
  with False have "\<not> is_space (hd s)" "\<not> is_space (last s)" by (auto simp: clean_def)
  with False show ?thesis by (simp add: strip_def lstrip_fix rstrip_fix)
qed

lemma strip_subset: "set (strip s) \<subseteq> set s"
  unfolding strip_def rstrip_def lstrip_def
  by (metis set_dropWhileD set_rev subsetI)


lemma strip_keeps_hd: "l \<noteq> [] \<Longrightarrow> \<not> is_space (hd l) \<Longrightarrow> strip l \<noteq> [] \<and> hd (strip l) = hd l"
  by (cases l) (auto simp: strip_def lstrip_def rstrip_Cons)

lemma strip_keeps_last: "l \<noteq> [] \<Longrightarrow> \<not> is_space (last l) \<Longrightarrow> strip l \<noteq> [] \<and> last (strip l) = last l"
proof -
  assume a: "l \<noteq> []" "\<not> is_space (last l)"
  have "lstrip l \<noteq> []" using a unfolding lstrip_def
    by (metis dropWhile_eq_Nil_conv last_in_set)
  moreover have "last (lstrip l) = last l" using a unfolding lstrip_def
    by (metis calculation lstrip_def last_appendR takeWhile_dropWhile_id)
  ultimately show ?thesis using a by (simp add: strip_def rstrip_fix)
qed

lemma hd_py_join: "x \<noteq> [] \<Longrightarrow> hd (py_join sep (x # xs)) = hd x"
  by (cases xs) auto

lemma py_split_singleton_nil: "py_split sep t = [[]] \<Longrightarrow> t = []"
  by (cases t) (auto split: list.splits if_splits simp: py_split_nonempty)

lemma strip_nil [simp]: "strip [] = []"
  by (simp add: strip_def lstrip_def)

lemma py_join_nonempty: "xs \<noteq> [] \<Longrightarrow> last xs \<noteq> [] \<Longrightarrow> py_join sep xs \<noteq> []"
  by (induction sep xs rule: py_join.induct) auto

lemma last_py_join: "xs \<noteq> [] \<Longrightarrow> last xs \<noteq> [] \<Longrightarrow> last (py_join sep xs) = last (last xs)"
  by (induction sep xs rule: py_join.induct) (auto simp: py_join_nonempty)

lemma hd_py_split: "t \<noteq> [] \<Longrightarrow> hd t \<noteq> sep \<Longrightarrow> hd (py_split sep t) \<noteq> [] \<and> hd (hd (py_split sep t)) = hd t"
  by (cases t) (auto split: list.splits)

lemma last_py_split: "t \<noteq> [] \<Longrightarrow> last t \<noteq> sep \<Longrightarrow> last (py_split sep t) \<noteq> [] \<and> last (last (py_split sep t)) = last t"
  by (induction t) (auto split: list.splits simp: py_split_nonempty dest: py_split_singleton_nil)

lemma normalize_output_clean: "clean (normalize_output s)"
proof (cases "strip s = []")
  case True
  then show ?thesis by (simp add: normalize_output_def clean_def)
next
  case False
  define t where "t = strip s"
  define ls where "ls = py_split (CHR 0x0A) t"
  have t: "t \<noteq> []" "\<not> is_space (hd t)" "\<not> is_space (last t)"
    using False clean_strip [of s] by (auto simp: t_def clean_def)
  have "is_space (CHR 0x0A)" by (simp add: is_space_def)
  with t have nl: "hd t \<noteq> CHR 0x0A" "last t \<noteq> CHR 0x0A" by auto
  have ne: "ls \<noteq> []" by (simp add: ls_def py_split_nonempty)
  have h: "hd ls \<noteq> []" "hd (hd ls) = hd t"
    using hd_py_split [of t "CHR 0x0A"] t nl by (auto simp: ls_def)
  have l: "last ls \<noteq> []" "last (last ls) = last t"
    using last_py_split [of t "CHR 0x0A"] t nl by (auto simp: ls_def)
  have h': "strip (hd ls) \<noteq> []" "hd (strip (hd ls)) = hd t"
    using strip_keeps_hd [of "hd ls"] h t by auto
  have l': "strip (last ls) \<noteq> []" "last (strip (last ls)) = last t"
    using strip_keeps_last [of "last ls"] l t by auto
  have "hd (py_join [CHR 0x0A] (map strip ls)) = hd t"
    using ne h' by (cases ls) (auto simp: hd_py_join)
  moreover have "last (py_join [CHR 0x0A] (map strip ls)) = last t"
    using ne l' by (simp add: last_py_join last_map)
  ultimately show ?thesis using t by (simp add: normalize_output_def clean_def t_def [symmetric] ls_def [symmetric])
qed

text \<open>
  Claim C6. Normalising an output text (strip the whole text, split it at newlines, strip
  each line, join the lines with newlines) is idempotent: a normalised text is left as it
  is by a second normalisation.
\<close>

theorem normalize_output_idempotent: "normalize_output (normalize_output s) = normalize_output s"
proof -
  define ls where "ls = map strip (py_split (CHR 0x0A) (strip s))"
  have r: "normalize_output s = py_join [CHR 0x0A] ls" by (simp add: normalize_output_def ls_def)
  have ne: "ls \<noteq> []" by (simp add: ls_def py_split_nonempty)
  have nosep: "\<forall>l \<in> set ls. CHR 0x0A \<notin> set l"
    using py_split_no_sep strip_subset by (fastforce simp: ls_def)
  have fixed: "map strip ls = ls"
    by (simp add: ls_def strip_clean clean_strip)
  have "strip (normalize_output s) = normalize_output s"
    by (rule strip_clean [OF normalize_output_clean])
  then have "normalize_output (normalize_output s) = py_join [CHR 0x0A] (map strip (py_split (CHR 0x0A) (normalize_output s)))"
    unfolding normalize_output_def [of "normalize_output s"] by simp
  also have "\<dots> = py_join [CHR 0x0A] (map strip (py_split (CHR 0x0A) (py_join [CHR 0x0A] ls)))"
    by (simp only: r)
  also have "\<dots> = py_join [CHR 0x0A] ls"
    using py_split_join [OF ne nosep] fixed by simp
  finally show ?thesis by (simp add: r)
qed

section \<open>Verdict classification\<close>

lemma verdicts_inj: "verdicts a = verdicts b \<Longrightarrow> a = b"
  by (cases a; cases b) (simp_all add: verdicts_def color_BOLD_def color_GREEN_def color_RED_def color_YELLOW_def color_ENDC_def)

text \<open>
  What the source computes: the status is compared with the literal 124, then with 0.
\<close>

lemma run_command_on_one_test_result:
  assumes "map_of (files w testcases_path) (str i @ ''.a'') = Some content"
    and "shell e (test_command testcases_path i execute_command) = (status, out)"
  shows "run_command_on_one_test e testcases_path i execute_command w =
           (Return (normalize_output content,
                    (if status = 0 then normalize_output out else []),
                    verdicts (if status = 124 then TLE
                              else if status = 0
                              then (if normalize_output content = normalize_output out then AC else WA)
                              else RTE)),
            w\<lparr>executed := executed w @ [test_command testcases_path i execute_command]\<rparr>)"
  using assms
  by (simp add: run_command_on_one_test_def os_system_def Let_def)

text \<open>
  Away from the two statuses 124 and \<open>124 * 256\<close> the source and the specification's
  table agree: status 0 gives AC or WA by the normalised texts, any other status RTE.
\<close>

lemma run_command_on_one_test_agrees:
  assumes "map_of (files w testcases_path) (str i @ ''.a'') = Some content"
    and "shell e (test_command testcases_path i execute_command) = (status, out)"
    and "status \<noteq> 124" and "status \<noteq> timeout_status"
  shows "fst (run_command_on_one_test e testcases_path i execute_command w) =
           Return (normalize_output content,
                   (if status = 0 then normalize_output out else []),
                   verdicts (spec_verdict status (normalize_output content) (normalize_output out)))"
  using assms
  by (simp add: run_command_on_one_test_def os_system_def spec_verdict_def Let_def)

text \<open>
  Claim C1, at a failing input: the case has the expected output \<open>6\<close> and the solution is
  stopped by \<open>timeout\<close>, so that \<open>os.system\<close> returns the wait status \<open>124 * 256\<close>. The
  specification's table gives TLE for this status; the source compares the status with 124,
  finds it different from 124 and from 0, and returns the verdict RTE.
\<close>

theorem run_command_on_one_test_timeout_is_RTE:
  "run_command_on_one_test env_timeout ''/h/.cache/ACedIt/codeforces/1/A'' 0 ''./A'' world_one_case =
     (Return (''6'', [], verdicts RTE),
      world_one_case\<lparr>executed := [test_command ''/h/.cache/ACedIt/codeforces/1/A'' 0 ''./A'']\<rparr>)
   \<and> spec_verdict (fst (shell env_timeout (test_command ''/h/.cache/ACedIt/codeforces/1/A'' 0 ''./A'')))
         (normalize_output ''6'') (normalize_output []) = TLE
   \<and> verdicts RTE \<noteq> verdicts TLE"
proof -
  have f: "map_of (files world_one_case ''/h/.cache/ACedIt/codeforces/1/A'') (str 0 @ ''.a'') = Some ''6''"
    by (simp add: world_one_case_def empty_world_def str.simps digit_def)
  have s: "shell env_timeout (test_command ''/h/.cache/ACedIt/codeforces/1/A'' 0 ''./A'') = (31744, [])"
    by (simp add: env_timeout_def env_six_def timeout_status_def wait_status_def)
  have n: "normalize_output ''6'' = ''6''"
    by (simp add: normalize_output_def strip_def lstrip_def rstrip_def is_space_def)
  have e: "executed world_one_case = []"
    by (simp add: world_one_case_def empty_world_def)
  have 1: "run_command_on_one_test env_timeout ''/h/.cache/ACedIt/codeforces/1/A'' 0 ''./A'' world_one_case =
     (Return (''6'', [], verdicts RTE),
      world_one_case\<lparr>executed := [test_command ''/h/.cache/ACedIt/codeforces/1/A'' 0 ''./A'']\<rparr>)"
    using run_command_on_one_test_result [OF f s] by (simp add: n e)
  have 2: "spec_verdict (fst (shell env_timeout (test_command ''/h/.cache/ACedIt/codeforces/1/A'' 0 ''./A'')))
         (normalize_output ''6'') (normalize_output []) = TLE"
    by (simp add: s spec_verdict_def timeout_status_def wait_status_def)
  have 3: "verdicts RTE \<noteq> verdicts TLE"
    using verdicts_inj [of RTE TLE] by auto
  from 1 2 3 show ?thesis by (simp only: simp_thms)
qed

section \<open>Cache store and acquisition\<close>

lemma and_then_Return [simp]: "and_then (Return x, w) f = f x w"
  by (simp add: and_then_def)

lemma and_then_Exit [simp]: "and_then (Exit, w) f = (Exit, w)"
  by (simp add: and_then_def)

lemma and_then_Raise [simp]: "and_then (Raise x, w) f = (Raise x, w)"
  by (simp add: and_then_def)

lemma makedirs_new:
  "p \<notin> dirs w \<Longrightarrow>
   makedirs p w = (Return (), w\<lparr>dirs := dirs w \<union> set (p # ancestors p),
                      files := (\<lambda>q. if q \<in> set (p # ancestors p) - dirs w then [] else files w q)\<rparr>)"
  by (auto simp: makedirs_def Let_def)

text \<open>
  Claim C3. With a problem given, \<open>check_cache\<close> returns whether the case directory
  existed before the call, and the directory exists after the call in either case; nothing
  that existed is removed. With no problem given it returns \<open>False\<close> and ensures the
  contest-level directory (and the directories above it) and nothing else.
\<close>

theorem check_cache_reports_and_creates:
  "fst (check_cache e s c (Some p) w)
     = Return (os_path_join (cache_dir e) [s, if s = ''spoj'' then [] else c, p] \<in> dirs w)
   \<and> os_path_join (cache_dir e) [s, if s = ''spoj'' then [] else c, p]
        \<in> dirs (snd (check_cache e s c (Some p) w))
   \<and> dirs w \<subseteq> dirs (snd (check_cache e s c (Some p) w))
   \<and> fst (check_cache e s c None w) = Return False
   \<and> os_path_join (cache_dir e) [s, c] \<in> dirs (snd (check_cache e s c None w))
   \<and> dirs (snd (check_cache e s c None w))
        = (if os_path_join (cache_dir e) [s, c] \<in> dirs w then dirs w
           else dirs w \<union> set (os_path_join (cache_dir e) [s, c] # ancestors (os_path_join (cache_dir e) [s, c])))"
  by (auto simp: check_cache_def Let_def makedirs_new)

theorem check_cache_reports_and_creates_witness:
  "fst (check_cache env_six ''codeforces'' ''1'' (Some ''B'') world_one_case) = Return False
   \<and> ''/h/.cache/ACedIt/codeforces/1/B''
       \<in> dirs (snd (check_cache env_six ''codeforces'' ''1'' (Some ''B'') world_one_case))
   \<and> fst (check_cache env_six ''codeforces'' ''1'' (Some ''A'') world_one_case) = Return True"
proof -
  have c: "cache_dir env_six = ''/h/.cache/ACedIt''"
    by (simp add: cache_dir_def env_six_def os_path_join_def join_step_def startswith_def endswith_def)
  have j: "os_path_join ''/h/.cache/ACedIt'' [''codeforces'', ''1'', ''B''] = ''/h/.cache/ACedIt/codeforces/1/B''"
    "os_path_join ''/h/.cache/ACedIt'' [''codeforces'', ''1'', ''A''] = ''/h/.cache/ACedIt/codeforces/1/A''"
    by (simp_all add: os_path_join_def join_step_def startswith_def endswith_def)
  have d: "dirs world_one_case = {''/h/.cache/ACedIt/codeforces/1/A''}"
    by (simp add: world_one_case_def empty_world_def)
  show ?thesis
    using check_cache_reports_and_creates [of env_six "''codeforces''" "''1''" "''B''" world_one_case]
      check_cache_reports_and_creates [of env_six "''codeforces''" "''1''" "''A''" world_one_case]
    by (simp add: c j d)
qed

lemma check_cache_hit_unchanged:
  "check_cache e s c p w = (Return True, w1) \<Longrightarrow> w1 = w"
  by (auto simp: check_cache_def Let_def makedirs_new split: option.splits if_splits)

text \<open>
  Claim C7. When the cache check reports a hit and the download is not forced,
  \<open>download_problem_testcases\<close> prints that the cases were found and exits with status 0;
  the world is otherwise untouched and the platform's \<open>scrape_problem\<close> is not called. In
  every other case it hands over to \<open>scrape_problem\<close> of the platform.
\<close>

theorem download_problem_testcases_cache_hit:
  assumes "get_platform a = Return pf"
    and "check_cache e (self_site pf) (self_contest pf) (self_problem pf) w = (Return hit, w1)"
  shows "download_problem_testcases e a w =
           (if hit \<and> \<not> args_force a
            then (Exit, print_line ''Test cases found in cache...'' w)
            else scrape_problem e pf w1)"
  using assms check_cache_hit_unchanged [of e "self_site pf" "self_contest pf" "self_problem pf" w w1]
  by (auto simp: download_problem_testcases_def)

lemma cache_dir_env_six: "cache_dir env_six = ''/h/.cache/ACedIt''"
  by (simp add: cache_dir_def env_six_def os_path_join_def join_step_def startswith_def endswith_def)

theorem download_problem_testcases_cache_hit_witness:
  "download_problem_testcases env_six args_A world_one_case =
     (Exit, print_line ''Test cases found in cache...'' world_one_case)"
proof -
  have g: "get_platform args_A = Return platform_A"
    by (simp add: get_platform_def args_A_def platform_A_def)
  have c: "check_cache env_six (self_site platform_A) (self_contest platform_A) (self_problem platform_A)
             world_one_case = (Return True, world_one_case)"
    by (simp add: check_cache_def platform_A_def cache_dir_env_six world_one_case_def empty_world_def
        Let_def os_path_join_def join_step_def startswith_def endswith_def)
  show ?thesis
    using download_problem_testcases_cache_hit [OF g c]
    by (simp add: args_A_def)
qed


lemma join_step_spoj_empty:
  "join_step (join_step (join_step x ''spoj'') []) p = join_step (join_step x ''spoj'') p"
  by (auto simp: join_step_def startswith_def endswith_def)

lemma os_path_join_spoj_flat:
  "os_path_join x [''spoj'', [], p] = os_path_join x [''spoj'', p]"
  by (simp add: os_path_join_def join_step_spoj_empty)

lemma files_writeFile_other: "q \<noteq> d \<Longrightarrow> files (writeFile d n x w) q = files w q"
  by (simp add: writeFile_def)

lemma files_fold_writeFile_other:
  "q \<noteq> d \<Longrightarrow> files (fold (\<lambda>(i, x). writeFile d (nm i) x) ixs w) q = files w q"
  by (induction ixs arbitrary: w) (auto simp: files_writeFile_other)

lemma store_files_other_dirs:
  "q \<noteq> os_path_join (cache_dir e) [s, if s = ''spoj'' then [] else c, p] \<Longrightarrow>
   files (snd (store_files e s c p ins outs st w)) q = files w q"
  by (auto simp: store_files_def getTestCasesCount_def listdir_def Let_def
      files_fold_writeFile_other files_writeFile_other split: option.splits)

text \<open>
  Claim C8. For the site \<open>spoj\<close> the contest plays no part in the case path: the cache
  check, the store, the interrupt handler and the lookup of \<open>run_solution\<close> behave the same
  for every contest, and the case directory is \<open>cache_dir/spoj/problem\<close>. For any other
  site the case directory is \<open>cache_dir/site/contest/problem\<close>.
\<close>

theorem spoj_contest_normalised:
  "check_cache e ''spoj'' c (Some p) w = check_cache e ''spoj'' [] (Some p) w
   \<and> fst (check_cache e ''spoj'' c (Some p) w)
       = Return (os_path_join (cache_dir e) [''spoj'', p] \<in> dirs w)
   \<and> store_files e ''spoj'' c p ins outs st w = store_files e ''spoj'' [] p ins outs st w
   \<and> (\<forall>q. q \<noteq> os_path_join (cache_dir e) [''spoj'', p] \<longrightarrow>
          files (snd (store_files e ''spoj'' c p ins outs st w)) q = files w q)
   \<and> handle_kbd_interrupt ''spoj'' c pr w = handle_kbd_interrupt ''spoj'' [] pr w
   \<and> testcases_path_of e (a\<lparr>args_site := ''spoj'', args_contest := c\<rparr>)
       = os_path_join (cache_dir e) [''spoj'', problem_code_of a]
   \<and> (s \<noteq> ''spoj'' \<longrightarrow>
        fst (check_cache e s c (Some p) w) = Return (os_path_join (cache_dir e) [s, c, p] \<in> dirs w)
        \<and> (\<forall>q. q \<noteq> os_path_join (cache_dir e) [s, c, p] \<longrightarrow>
               files (snd (store_files e s c p ins outs st w)) q = files w q)
        \<and> testcases_path_of e (a\<lparr>args_site := s, args_contest := c\<rparr>)
            = os_path_join (cache_dir e) [s, c, problem_code_of a])"
proof -
  have 1: "check_cache e ''spoj'' c (Some p) w = check_cache e ''spoj'' [] (Some p) w"
    by (simp add: check_cache_def)
  have 2: "fst (check_cache e ''spoj'' c (Some p) w)
             = Return (os_path_join (cache_dir e) [''spoj'', p] \<in> dirs w)"
    by (simp add: check_cache_def Let_def makedirs_new os_path_join_spoj_flat)
  have 3: "store_files e ''spoj'' c p ins outs st w = store_files e ''spoj'' [] p ins outs st w"
    by (simp add: store_files_def)
  have 4: "\<forall>q. q \<noteq> os_path_join (cache_dir e) [''spoj'', p] \<longrightarrow>
          files (snd (store_files e ''spoj'' c p ins outs st w)) q = files w q"
    using store_files_other_dirs [of _ e "''spoj''" c p ins outs st w]
    by (simp add: os_path_join_spoj_flat)
  have 5: "handle_kbd_interrupt ''spoj'' c pr w = handle_kbd_interrupt ''spoj'' [] pr w"
    by (simp add: handle_kbd_interrupt_def)
  have 6: "testcases_path_of e (a\<lparr>args_site := ''spoj'', args_contest := c\<rparr>)
       = os_path_join (cache_dir e) [''spoj'', problem_code_of a]"
    by (simp add: testcases_path_of_def problem_code_of_def Let_def os_path_join_spoj_flat)
  have 7: "s \<noteq> ''spoj'' \<longrightarrow>
        fst (check_cache e s c (Some p) w) = Return (os_path_join (cache_dir e) [s, c, p] \<in> dirs w)
        \<and> (\<forall>q. q \<noteq> os_path_join (cache_dir e) [s, c, p] \<longrightarrow>
               files (snd (store_files e s c p ins outs st w)) q = files w q)
        \<and> testcases_path_of e (a\<lparr>args_site := s, args_contest := c\<rparr>)
            = os_path_join (cache_dir e) [s, c, problem_code_of a]"
    using store_files_other_dirs [of _ e s c p ins outs st w]
    by (auto simp: check_cache_def Let_def makedirs_new testcases_path_of_def problem_code_of_def)
  from 1 2 3 4 5 6 7 show ?thesis by blast
qed

theorem spoj_contest_normalised_witness:
  "fst (check_cache env_six ''codeforces'' ''1'' (Some ''A'') world_one_case) = Return True
   \<and> testcases_path_of env_six (args_A\<lparr>args_site := ''codeforces'', args_contest := ''1''\<rparr>)
       = ''/h/.cache/ACedIt/codeforces/1/A''
   \<and> testcases_path_of env_six (args_A\<lparr>args_site := ''spoj'', args_contest := ''1''\<rparr>)
       = ''/h/.cache/ACedIt/spoj/A''"
proof -
  have ne: "''codeforces'' \<noteq> ''spoj''" by simp
  have pc: "problem_code_of args_A = ''A''" by (simp add: problem_code_of_def args_A_def)
  have j: "os_path_join ''/h/.cache/ACedIt'' [''codeforces'', ''1'', ''A''] = ''/h/.cache/ACedIt/codeforces/1/A''"
     "os_path_join ''/h/.cache/ACedIt'' [''spoj'', ''A''] = ''/h/.cache/ACedIt/spoj/A''"
    by (simp_all add: os_path_join_def join_step_def startswith_def endswith_def)
  have d: "dirs world_one_case = {''/h/.cache/ACedIt/codeforces/1/A''}"
    by (simp add: world_one_case_def empty_world_def)
  show ?thesis
    using spoj_contest_normalised [of env_six "''1''" "''A''" world_one_case _ _ _ _ args_A "''codeforces''"] ne
    by (simp add: pc j d cache_dir_env_six)
qed

section \<open>Appending cases to the store\<close>

subsection \<open>Decimal numerals\<close>

lemma digit_in: "d < 10 \<Longrightarrow> digit d \<in> set ''0123456789''"
  unfolding digit_def by (rule nth_mem) simp

lemma digit_inj: "d < 10 \<Longrightarrow> d' < 10 \<Longrightarrow> digit d = digit d' \<Longrightarrow> d = d'"
  unfolding digit_def
  using nth_eq_iff_index_eq [of "''0123456789''" d d'] by simp

lemma str_nonempty: "str n \<noteq> []"
  by (subst str.simps) simp

lemma str_digits: "set (str n) \<subseteq> set ''0123456789''"
proof (induction n rule: str.induct)
  case (1 n)
  show ?case
  proof (cases "n < 10")
    case True
    then show ?thesis using digit_in [of n] by (subst str.simps) simp
  next
    case False
    have "n mod 10 < 10" by simp
    then have "digit (n mod 10) \<in> set ''0123456789''" by (rule digit_in)
    with False 1 show ?thesis by (subst str.simps) simp
  qed
qed

lemma str_inj: "str n = str m \<Longrightarrow> n = m"
proof (induction n arbitrary: m rule: str.induct)
  case (1 n)
  show ?case
  proof (cases "n < 10")
    case True
    note n = this
    show ?thesis
    proof (cases "m < 10")
      case True
      with n 1(2) show ?thesis
        by (simp add: str.simps [of n] str.simps [of m] digit_inj)
    next
      case False
      with n 1(2) show ?thesis
        using str_nonempty [of "m div 10"]
        by (simp add: str.simps [of n] str.simps [of m])
    qed
  next
    case False
    note n = this
    show ?thesis
    proof (cases "m < 10")
      case True
      with n 1(2) show ?thesis
        using str_nonempty [of "n div 10"]
        by (simp add: str.simps [of n] str.simps [of m])
    next
      case False
      with n 1(2) have e: "str (n div 10) = str (m div 10)" "digit (n mod 10) = digit (m mod 10)"
        by (simp_all add: str.simps [of n] str.simps [of m])
      from e(1) have "n div 10 = m div 10" using 1(1) n by blast
      moreover from e(2) have "n mod 10 = m mod 10" by (intro digit_inj) simp_all
      ultimately show ?thesis by (metis div_mult_mod_eq)
    qed
  qed
qed

lemma str_last_digit: "last (str n) \<in> set ''0123456789''"
  using str_digits [of n] str_nonempty [of n] last_in_set by blast

lemma endswith_output_name: "endswith (str k @ ''.a'') ''.a''"
  by (simp add: endswith_def)

lemma endswith_last: "endswith f ''.a'' \<Longrightarrow> f \<noteq> [] \<and> last f = CHR ''a''"
proof -
  assume a: "endswith f ''.a''"
  then have "f = take (length f - 2) f @ ''.a''"
    unfolding endswith_def by (metis append_take_drop_id length_Cons list.size(3) numeral_2_eq_2)
  then obtain g where "f = g @ ''.a''" ..
  then show ?thesis by simp
qed


lemma not_endswith_str: "\<not> endswith (str k) ''.a''"
proof
  assume "endswith (str k) ''.a''"
  then have "last (str k) = CHR ''a''" by (simp add: endswith_last)
  with str_last_digit [of k] show False by auto
qed

lemma not_endswith_statement: "\<not> endswith ''statement.txt'' ''.a''"
  by (simp add: endswith_def)

lemma str_neq_output: "str k \<noteq> str j @ ''.a''"
  using not_endswith_str [of k] endswith_output_name [of j] by auto

lemma str_neq_statement: "str k \<noteq> ''statement.txt''"
proof
  assume "str k = ''statement.txt''"
  then have "last (str k) = CHR ''t''" by simp
  with str_last_digit [of k] show False by auto
qed

lemma output_neq_statement: "str k @ ''.a'' \<noteq> ''statement.txt''"
  using not_endswith_statement endswith_output_name [of k] by auto

lemma output_inj: "str k @ ''.a'' = str j @ ''.a'' \<Longrightarrow> k = j"
  by (simp add: str_inj)

subsection \<open>Counting the stored cases\<close>

lemma wf_cases_count:
  assumes "wf_cases d n"
  shows "length (filter (\<lambda>f. endswith f ''.a'') (map fst d)) = n"
proof -
  let ?A = "filter (\<lambda>f. endswith f ''.a'') (map fst d)"
  have dist: "distinct ?A" using assms by (simp add: wf_cases_def)
  have "set ?A = (\<lambda>k. str k @ ''.a'') ` {..<n}"
  proof (intro set_eqI iffI)
    fix f assume "f \<in> set ?A"
    then show "f \<in> (\<lambda>k. str k @ ''.a'') ` {..<n}"
      using assms by (auto simp: wf_cases_def)
  next
    fix f assume "f \<in> (\<lambda>k. str k @ ''.a'') ` {..<n}"
    then obtain k where k: "k < n" "f = str k @ ''.a''" by auto
    with assms have "f \<in> set (map fst d)" by (simp add: wf_cases_def)
    with k show "f \<in> set ?A" by (simp add: endswith_output_name)
  qed
  moreover have "inj_on (\<lambda>k. str k @ ''.a'') {..<n}"
    by (rule inj_onI) (simp add: str_inj)
  ultimately have "card (set ?A) = n" by (simp add: card_image)
  moreover have "card (set ?A) = length ?A" using dist by (rule distinct_card)
  ultimately show ?thesis by (simp only:)
qed

lemma wf_cases_empty: "wf_cases [] 0"
  by (simp add: wf_cases_def)

subsection \<open>A run of writes into one directory\<close>

lemma fold_writeFile:
  "fold (\<lambda>(i, x). writeFile d (nm i) x) ixs w =
     w\<lparr>files := (files w)(d := fold (\<lambda>(i, x). AList.update (nm i) x) ixs (files w d))\<rparr>"
proof (induction ixs arbitrary: w)
  case Nil
  then show ?case by simp
next
  case (Cons a ixs)
  then show ?case by (cases a) (simp add: writeFile_def cong: if_cong)
qed

lemma writes_distinct:
  "distinct (map fst al) \<Longrightarrow> distinct (map fst (fold (\<lambda>(i, x). AList.update (nm i) x) ixs al))"
  by (induction ixs arbitrary: al) (auto simp: distinct_update)

lemma writes_keys:
  "fst ` set (fold (\<lambda>(i, x). AList.update (nm i) x) (enumerate k xs) al)
     = fst ` set al \<union> nm ` {k..<k + length xs}"
proof (induction xs arbitrary: k al)
  case Nil
  then show ?case by simp
next
  case (Cons x xs)
  have "{k..<k + length (x # xs)} = insert k {Suc k..<Suc k + length xs}" by auto
  then show ?case by (simp add: Cons.IH dom_update)
qed

lemma writes_other:
  "\<forall>i. k \<le> i \<and> i < k + length xs \<longrightarrow> f \<noteq> nm i \<Longrightarrow>
   map_of (fold (\<lambda>(i, x). AList.update (nm i) x) (enumerate k xs) al) f = map_of al f"
proof (induction xs arbitrary: k al)
  case Nil
  then show ?case by simp
next
  case (Cons x xs)
  from Cons.prems have "f \<noteq> nm k" by auto
  moreover from Cons.prems have "\<forall>i. Suc k \<le> i \<and> i < Suc k + length xs \<longrightarrow> f \<noteq> nm i" by auto
  ultimately show ?case by (simp add: Cons.IH update_conv')
qed

lemma writes_written:
  "inj nm \<Longrightarrow> k \<le> i \<Longrightarrow> i < k + length xs \<Longrightarrow>
   map_of (fold (\<lambda>(i, x). AList.update (nm i) x) (enumerate k xs) al) (nm i) = Some (xs ! (i - k))"
proof (induction xs arbitrary: k al)
  case Nil
  then show ?case by simp
next
  case (Cons x xs)
  show ?case
  proof (cases "i = k")
    case True
    have "\<forall>j. Suc k \<le> j \<and> j < Suc k + length xs \<longrightarrow> nm k \<noteq> nm j"
      using Cons.prems(1) by (auto dest: injD)
    then show ?thesis using True by (simp add: writes_other update_conv')
  next
    case False
    with Cons.prems have "Suc k \<le> i" "i < Suc k + length xs" by auto
    then have "map_of (fold (\<lambda>(i, x). AList.update (nm i) x) (enumerate (Suc k) xs) (AList.update (nm k) x al)) (nm i)
                 = Some (xs ! (i - Suc k))"
      using Cons.IH [OF Cons.prems(1)] by blast
    moreover have "(x # xs) ! (i - k) = xs ! (i - Suc k)"
      using \<open>Suc k \<le> i\<close> by (simp add: nth_Cons')
    ultimately show ?thesis by simp
  qed
qed


subsection \<open>One call of store_files\<close>

lemma inj_input_name: "inj (\<lambda>i. str (i + n))"
  by (rule injI) (auto dest: str_inj)

lemma inj_output_name: "inj (\<lambda>i. str (i + n) @ ''.a'')"
  by (rule injI) (auto dest: str_inj)

lemma store_files_explicit:
  assumes "p = os_path_join (cache_dir e) [s, if s = ''spoj'' then [] else c, pr]"
    and "p \<in> dirs w"
    and "n = length (filter (\<lambda>f. endswith f ''.a'') (map fst (files w p)))"
  shows "store_files e s c pr ins outs st w =
           (Return (),
            w\<lparr>files := (files w)(p :=
               (case st of
                  None \<Rightarrow> (\<lambda>d. d)
                | Some t \<Rightarrow> if t \<noteq> [] then AList.update ''statement.txt'' t else (\<lambda>d. d))
               (fold (\<lambda>(i, x). AList.update (str (i + n) @ ''.a'') x) (enumerate 0 outs)
                 (fold (\<lambda>(i, x). AList.update (str (i + n)) x) (enumerate 0 ins) (files w p))))\<rparr>)"
  using assms
  by (auto simp: store_files_def getTestCasesCount_def listdir_def Let_def fold_writeFile writeFile_def
      split: option.splits)


lemma store_files_effect:
  fixes st :: "string option"
  assumes p: "p = os_path_join (cache_dir e) [s, if s = ''spoj'' then [] else c, pr]"
    and d: "p \<in> dirs w"
    and wf: "wf_cases (files w p) n"
    and len: "length ins = length outs"
  defines "w' \<equiv> snd (store_files e s c pr ins outs st w)"
  shows "fst (store_files e s c pr ins outs st w) = Return ()"
    and "dirs w' = dirs w"
    and "\<And>i. i < length ins \<Longrightarrow> map_of (files w' p) (str (n + i)) = Some (ins ! i)"
    and "\<And>i. i < length outs \<Longrightarrow> map_of (files w' p) (str (n + i) @ ''.a'') = Some (outs ! i)"
    and "\<And>f. \<forall>i<length ins. f \<noteq> str (n + i) \<and> f \<noteq> str (n + i) @ ''.a'' \<Longrightarrow>
            f \<noteq> ''statement.txt'' \<Longrightarrow> map_of (files w' p) f = map_of (files w p) f"
    and "map_of (files w' p) ''statement.txt'' =
           (case st of
              None \<Rightarrow> map_of (files w p) ''statement.txt''
            | Some t \<Rightarrow> if t \<noteq> [] then Some t else map_of (files w p) ''statement.txt'')"
    and "wf_cases (files w' p) (n + length ins)"
proof -
  define d0 where "d0 = files w p"
  define d1 where "d1 = fold (\<lambda>(i, x). AList.update (str (i + n)) x) (enumerate 0 ins) d0"
  define d2 where "d2 = fold (\<lambda>(i, x). AList.update (str (i + n) @ ''.a'') x) (enumerate 0 outs) d1"
  define d3 where "d3 = (case st of None \<Rightarrow> (\<lambda>d. d)
                | Some t \<Rightarrow> if t \<noteq> [] then AList.update ''statement.txt'' t else (\<lambda>d. d)) d2"
  have n: "n = length (filter (\<lambda>f. endswith f ''.a'') (map fst (files w p)))"
    using wf_cases_count [OF wf] by simp
  have eq: "store_files e s c pr ins outs st w = (Return (), w\<lparr>files := (files w)(p := d3)\<rparr>)"
    unfolding d3_def d2_def d1_def d0_def by (rule store_files_explicit [OF p d n])
  show "fst (store_files e s c pr ins outs st w) = Return ()" by (simp add: eq)
  show "dirs w' = dirs w" by (simp add: w'_def eq)
  have fw: "files w' p = d3" by (simp add: w'_def eq)
  have m1_new: "map_of d1 (str (n + i)) = Some (ins ! i)" if "i < length ins" for i
    using writes_written [OF inj_input_name [of n], of 0 i ins d0] that
    by (simp add: d1_def add.commute)
  have m1_old: "map_of d1 f = map_of d0 f" if "\<forall>i<length ins. f \<noteq> str (n + i)" for f
    unfolding d1_def using that by (intro writes_other) (auto simp: add.commute)
  have m2_new: "map_of d2 (str (n + i) @ ''.a'') = Some (outs ! i)" if "i < length outs" for i
    using writes_written [OF inj_output_name [of n], of 0 i outs d1] that
    by (simp add: d2_def add.commute)
  have m2_old: "map_of d2 f = map_of d1 f" if "\<forall>i<length outs. f \<noteq> str (n + i) @ ''.a''" for f
    unfolding d2_def using that by (intro writes_other) (auto simp: add.commute)
  have m3_old: "map_of d3 f = map_of d2 f" if "f \<noteq> ''statement.txt''" for f
    using that by (auto simp: d3_def update_conv' split: option.splits)
  show "map_of (files w' p) (str (n + i)) = Some (ins ! i)" if "i < length ins" for i
    using that by (simp add: fw m3_old str_neq_statement m2_old str_neq_output m1_new)
  show "map_of (files w' p) (str (n + i) @ ''.a'') = Some (outs ! i)" if "i < length outs" for i
    using that by (simp add: fw m3_old output_neq_statement m2_new)
  show "map_of (files w' p) f = map_of (files w p) f"
    if "\<forall>i<length ins. f \<noteq> str (n + i) \<and> f \<noteq> str (n + i) @ ''.a''" "f \<noteq> ''statement.txt''" for f
    using that len by (simp add: fw m3_old m2_old m1_old d0_def)
  have st_old: "map_of d2 ''statement.txt'' = map_of d0 ''statement.txt''"
    using str_neq_statement output_neq_statement
    by (metis m1_old m2_old)
  show "map_of (files w' p) ''statement.txt'' =
           (case st of
              None \<Rightarrow> map_of (files w p) ''statement.txt''
            | Some t \<Rightarrow> if t \<noteq> [] then Some t else map_of (files w p) ''statement.txt'')"
    by (auto simp: fw d3_def st_old d0_def update_conv' split: option.splits)
  have k1: "fst ` set d1 = fst ` set d0 \<union> (\<lambda>i. str (i + n)) ` {0..<length ins}"
    unfolding d1_def using writes_keys [of "\<lambda>i. str (i + n)" 0 ins d0] by simp
  have k2: "fst ` set d2 = fst ` set d1 \<union> (\<lambda>i. str (i + n) @ ''.a'') ` {0..<length outs}"
    unfolding d2_def using writes_keys [of "\<lambda>i. str (i + n) @ ''.a''" 0 outs d1] by simp
  have k3: "fst ` set d3 = fst ` set d2 \<or> fst ` set d3 = insert ''statement.txt'' (fst ` set d2)"
    by (auto simp: d3_def dom_update split: option.splits)
  have dist: "distinct (map fst d3)"
    using wf by (auto simp: d3_def d2_def d1_def d0_def wf_cases_def writes_distinct distinct_update
        split: option.splits)
  have wf0: "\<forall>f \<in> fst ` set d0. endswith f ''.a'' \<longrightarrow> (\<exists>k<n. f = str k @ ''.a'')"
      "\<forall>k. (str k @ ''.a'' \<in> fst ` set d0) = (k < n)"
      "\<forall>k. (str k \<in> fst ` set d0) = (k < n)"
    using wf by (simp_all add: wf_cases_def d0_def)
  have keys: "f \<in> fst ` set d3 \<Longrightarrow>
       f \<in> fst ` set d0 \<or> (\<exists>i<length ins. f = str (i + n)) \<or> (\<exists>i<length ins. f = str (i + n) @ ''.a'')
         \<or> f = ''statement.txt''" for f
  proof -
    assume "f \<in> fst ` set d3"
    with k3 have "f \<in> fst ` set d2 \<or> f = ''statement.txt''" by auto
    with k2 have "f \<in> fst ` set d1 \<or> f \<in> (\<lambda>i. str (i + n) @ ''.a'') ` {0..<length outs}
        \<or> f = ''statement.txt''" by auto
    with k1 have "f \<in> fst ` set d0 \<or> f \<in> (\<lambda>i. str (i + n)) ` {0..<length ins}
        \<or> f \<in> (\<lambda>i. str (i + n) @ ''.a'') ` {0..<length outs} \<or> f = ''statement.txt''" by auto
    then show ?thesis unfolding len [symmetric] by (elim disjE imageE) auto
  qed
  have keys': "f \<in> fst ` set d0 \<or> (\<exists>i<length ins. f = str (i + n)) \<or> (\<exists>i<length ins. f = str (i + n) @ ''.a'')
       \<Longrightarrow> f \<in> fst ` set d3" for f
  proof -
    assume "f \<in> fst ` set d0 \<or> (\<exists>i<length ins. f = str (i + n)) \<or> (\<exists>i<length ins. f = str (i + n) @ ''.a'')"
    then have "f \<in> fst ` set d0 \<or> f \<in> (\<lambda>i. str (i + n)) ` {0..<length ins}
        \<or> f \<in> (\<lambda>i. str (i + n) @ ''.a'') ` {0..<length outs}"
      unfolding len [symmetric] by auto
    with k1 k2 have "f \<in> fst ` set d2" by auto
    with k3 show ?thesis by auto
  qed
  have w1: "\<forall>f \<in> fst ` set d3. endswith f ''.a'' \<longrightarrow> (\<exists>k<n + length ins. f = str k @ ''.a'')"
  proof (intro ballI impI)
    fix f assume f: "f \<in> fst ` set d3" "endswith f ''.a''"
    from keys [OF f(1)] show "\<exists>k<n + length ins. f = str k @ ''.a''"
    proof (elim disjE exE conjE)
      assume "f \<in> fst ` set d0"
      with wf0(1) f(2) obtain k where "k < n" "f = str k @ ''.a''" by blast
      then show ?thesis by (intro exI [of _ k]) simp
    next
      fix i assume "i < length ins" "f = str (i + n)"
      with f(2) show ?thesis by (simp add: not_endswith_str)
    next
      fix i assume "i < length ins" "f = str (i + n) @ ''.a''"
      then show ?thesis by (intro exI [of _ "i + n"]) simp
    next
      assume "f = ''statement.txt''"
      with f(2) show ?thesis by (simp add: not_endswith_statement)
    qed
  qed
  have w2: "(str k @ ''.a'' \<in> fst ` set d3) = (k < n + length ins)" for k
  proof
    assume "str k @ ''.a'' \<in> fst ` set d3"
    from keys [OF this] show "k < n + length ins"
      using wf0(2) str_neq_output [of _ k] output_neq_statement [of k]
      by (auto dest: str_inj) (metis str_neq_output)
  next
    assume k: "k < n + length ins"
    show "str k @ ''.a'' \<in> fst ` set d3"
    proof (cases "k < n")
      case True
      then show ?thesis using wf0(2) keys' by blast
    next
      case False
      with k have "k - n < length ins" "str k @ ''.a'' = str ((k - n) + n) @ ''.a''" by auto
      then show ?thesis using keys' by blast
    qed
  qed
  have w3: "(str k \<in> fst ` set d3) = (k < n + length ins)" for k
  proof
    assume "str k \<in> fst ` set d3"
    from keys [OF this] show "k < n + length ins"
      using wf0(3) str_neq_output [of k] str_neq_statement [of k]
      by (auto dest: str_inj)
  next
    assume k: "k < n + length ins"
    show "str k \<in> fst ` set d3"
    proof (cases "k < n")
      case True
      then show ?thesis using wf0(3) keys' by blast
    next
      case False
      with k have "k - n < length ins" "str k = str ((k - n) + n)" by auto
      then show ?thesis using keys' by blast
    qed
  qed
  show "wf_cases (files w' p) (n + length ins)"
    unfolding wf_cases_def fw using dist w1 w2 w3 by simp
qed


lemma getTestCasesCount_wf:
  "p \<in> dirs w \<Longrightarrow> wf_cases (files w p) n \<Longrightarrow> getTestCasesCount p w = (Return n, w)"
  by (simp add: getTestCasesCount_def listdir_def wf_cases_count del: length_filter_map)

text \<open>
  Claim C2. Two successive calls of \<open>store_files\<close> on the same case directory, each with
  as many inputs as outputs, starting from a directory that holds the cases
  \<open>0, \<dots>, n - 1\<close>: both calls return; the second call finds the count \<open>n + length ins1\<close>
  and writes its \<open>i\<close>-th input and output at the index \<open>n + length ins1 + i\<close>; every file
  of an earlier index, those of the first call among them, is left as it was; no file
  other than the new inputs, the new outputs and \<open>statement.txt\<close> changes; and
  \<open>statement.txt\<close> changes only when a non-empty statement is given. The directory then
  holds the cases \<open>0, \<dots>, n + length ins1 + length ins2 - 1\<close>.
\<close>

theorem store_files_appends:
  fixes st1 st2 :: "string option"
  assumes p: "p = os_path_join (cache_dir e) [s, if s = ''spoj'' then [] else c, pr]"
    and d: "p \<in> dirs w"
    and wf: "wf_cases (files w p) n"
    and len1: "length ins1 = length outs1"
    and len2: "length ins2 = length outs2"
    and w1: "w1 = snd (store_files e s c pr ins1 outs1 st1 w)"
    and w2: "w2 = snd (store_files e s c pr ins2 outs2 st2 w1)"
  shows "fst (store_files e s c pr ins1 outs1 st1 w) = Return ()
    \<and> fst (store_files e s c pr ins2 outs2 st2 w1) = Return ()
    \<and> getTestCasesCount p w1 = (Return (n + length ins1), w1)
    \<and> (\<forall>i<length ins2.
          map_of (files w2 p) (str (n + length ins1 + i)) = Some (ins2 ! i)
          \<and> map_of (files w2 p) (str (n + length ins1 + i) @ ''.a'') = Some (outs2 ! i))
    \<and> (\<forall>k<n + length ins1.
          map_of (files w2 p) (str k) = map_of (files w1 p) (str k)
          \<and> map_of (files w2 p) (str k @ ''.a'') = map_of (files w1 p) (str k @ ''.a''))
    \<and> (\<forall>i<length ins1.
          map_of (files w2 p) (str (n + i)) = Some (ins1 ! i)
          \<and> map_of (files w2 p) (str (n + i) @ ''.a'') = Some (outs1 ! i))
    \<and> (\<forall>f. (\<forall>i<length ins2. f \<noteq> str (n + length ins1 + i) \<and> f \<noteq> str (n + length ins1 + i) @ ''.a'')
             \<and> f \<noteq> ''statement.txt'' \<longrightarrow> map_of (files w2 p) f = map_of (files w1 p) f)
    \<and> map_of (files w2 p) ''statement.txt'' =
          (case st2 of
             None \<Rightarrow> map_of (files w1 p) ''statement.txt''
           | Some t \<Rightarrow> if t \<noteq> [] then Some t else map_of (files w1 p) ''statement.txt'')
    \<and> wf_cases (files w2 p) (n + length ins1 + length ins2)"
proof -
  note one = store_files_effect [OF p d wf len1, where st = st1, folded w1]
  have d1: "p \<in> dirs w1" using one(2) d by simp
  have wf1: "wf_cases (files w1 p) (n + length ins1)" by (rule one(7))
  note two = store_files_effect [OF p d1 wf1 len2, where st = st2, folded w2]
  have frame: "map_of (files w2 p) f = map_of (files w1 p) f"
    if "\<forall>i<length ins2. f \<noteq> str (n + length ins1 + i) \<and> f \<noteq> str (n + length ins1 + i) @ ''.a''"
       "f \<noteq> ''statement.txt''" for f
    using two(5) [of f] that by simp
  have prior: "map_of (files w2 p) (str k) = map_of (files w1 p) (str k)
          \<and> map_of (files w2 p) (str k @ ''.a'') = map_of (files w1 p) (str k @ ''.a'')"
    if "k < n + length ins1" for k
  proof -
    have "\<forall>i<length ins2. k \<noteq> n + length ins1 + i" using that by auto
    then have a: "\<forall>i<length ins2. str k \<noteq> str (n + length ins1 + i) \<and> str k \<noteq> str (n + length ins1 + i) @ ''.a''"
      and b: "\<forall>i<length ins2. str k @ ''.a'' \<noteq> str (n + length ins1 + i)
                \<and> str k @ ''.a'' \<noteq> str (n + length ins1 + i) @ ''.a''"
      using str_neq_output by (auto dest: str_inj) (metis str_neq_output)+
    show ?thesis
      using frame [OF a str_neq_statement] frame [OF b output_neq_statement] by simp
  qed
  have first: "map_of (files w2 p) (str (n + i)) = Some (ins1 ! i)
          \<and> map_of (files w2 p) (str (n + i) @ ''.a'') = Some (outs1 ! i)"
    if "i < length ins1" for i
    using prior [of "n + i"] one(3) [of i] one(4) [of i] that len1 by simp
  show ?thesis
    using one(1) two(1) getTestCasesCount_wf [OF d1 wf1] two(3) two(4) len2 prior first frame two(6) two(7)
    by (simp add: add.assoc)
qed


theorem store_files_appends_witness:
  "map_of (files (snd (store_files env_six ''codeforces'' ''1'' ''B'' [''4 5''] [''9''] None
             (snd (store_files env_six ''codeforces'' ''1'' ''B'' [''1 2 3''] [''6''] (Some ''sum'')
                world_empty_case))))
       ''/h/.cache/ACedIt/codeforces/1/B'') ''0'' = Some ''1 2 3''
   \<and> map_of (files (snd (store_files env_six ''codeforces'' ''1'' ''B'' [''4 5''] [''9''] None
             (snd (store_files env_six ''codeforces'' ''1'' ''B'' [''1 2 3''] [''6''] (Some ''sum'')
                world_empty_case))))
       ''/h/.cache/ACedIt/codeforces/1/B'') ''1'' = Some ''4 5''
   \<and> map_of (files (snd (store_files env_six ''codeforces'' ''1'' ''B'' [''4 5''] [''9''] None
             (snd (store_files env_six ''codeforces'' ''1'' ''B'' [''1 2 3''] [''6''] (Some ''sum'')
                world_empty_case))))
       ''/h/.cache/ACedIt/codeforces/1/B'') ''1.a'' = Some ''9''"
proof -
  have p: "''/h/.cache/ACedIt/codeforces/1/B''
             = os_path_join (cache_dir env_six) [''codeforces'', if ''codeforces'' = ''spoj'' then [] else ''1'', ''B'']"
    by (simp add: cache_dir_env_six os_path_join_def join_step_def startswith_def endswith_def)
  have d: "''/h/.cache/ACedIt/codeforces/1/B'' \<in> dirs world_empty_case"
    by (simp add: world_empty_case_def)
  have wf: "wf_cases (files world_empty_case ''/h/.cache/ACedIt/codeforces/1/B'') 0"
    by (simp add: world_empty_case_def empty_world_def wf_cases_def)
  have l1: "length [''1 2 3''] = length [''6'']" and l2: "length [''4 5''] = length [''9'']"
    by simp_all
  have s: "str 0 = ''0''" "str 1 = ''1''" "str (Suc 0) = ''1''"
    by (simp_all add: str.simps digit_def)
  note t = store_files_appends [OF p d wf l1 l2 refl refl, of "Some ''sum''" None]
  note second = t [THEN conjunct2, THEN conjunct2, THEN conjunct2, THEN conjunct1, rule_format, of 0]
  note first = t [THEN conjunct2, THEN conjunct2, THEN conjunct2, THEN conjunct2, THEN conjunct2,
      THEN conjunct1, rule_format, of 0]
  from first have "map_of (files (snd (store_files env_six ''codeforces'' ''1'' ''B'' [''4 5''] [''9''] None
             (snd (store_files env_six ''codeforces'' ''1'' ''B'' [''1 2 3''] [''6''] (Some ''sum'')
                world_empty_case))))
       ''/h/.cache/ACedIt/codeforces/1/B'') ''0'' = Some ''1 2 3''"
    by (simp add: s)
  moreover from second have "map_of (files (snd (store_files env_six ''codeforces'' ''1'' ''B'' [''4 5''] [''9''] None
             (snd (store_files env_six ''codeforces'' ''1'' ''B'' [''1 2 3''] [''6''] (Some ''sum'')
                world_empty_case))))
       ''/h/.cache/ACedIt/codeforces/1/B'') ''1'' = Some ''4 5''
   \<and> map_of (files (snd (store_files env_six ''codeforces'' ''1'' ''B'' [''4 5''] [''9''] None
             (snd (store_files env_six ''codeforces'' ''1'' ''B'' [''1 2 3''] [''6''] (Some ''sum'')
                world_empty_case))))
       ''/h/.cache/ACedIt/codeforces/1/B'') ''1.a'' = Some ''9''"
    by (simp add: s)
  ultimately show ?thesis by (simp only: simp_thms)
qed

section \<open>Batch fetching\<close>




lemma handle_responses_failed_step:
  "status_code r \<noteq> 200 \<Longrightarrow>
   handle_responses e self (Some r # rest) failed w = handle_responses e self rest (failed @ [url r]) w"
  by simp
















section \<open>Running a solution\<close>

lemma py_in_verdicts:
  "py_in ''AC'' (verdicts AC)" "\<not> py_in ''WA'' (verdicts AC)"
  "\<not> py_in ''AC'' (verdicts WA)" "py_in ''WA'' (verdicts WA)"
  "\<not> py_in ''AC'' (verdicts TLE)" "\<not> py_in ''WA'' (verdicts TLE)"
  "\<not> py_in ''AC'' (verdicts RTE)" "\<not> py_in ''WA'' (verdicts RTE)"
  by (simp_all add: verdicts_def color_BOLD_def color_GREEN_def color_RED_def color_YELLOW_def
      color_ENDC_def startswith_def)

lemma table_row_verdict:
  "table_row i inp (eo, uo, verdicts v) =
     [str (i + 1), inp, eo, if v = AC \<or> v = WA then uo else ''N/A'', verdicts v]"
  by (cases v) (simp_all add: table_row_def py_in_verdicts)


lemma and_then_ReturnE:
  assumes "and_then m f = (Return y, w')"
  obtains x w1 where "m = (Return x, w1)" "f x w1 = (Return y, w')"
  using assms by (cases m; cases "fst m") (auto simp: and_then_def)

lemma run_command_on_one_test_form:
  assumes "run_command_on_one_test e p i c w = (Return t, w')"
  shows "(\<exists>eo uo v. t = (eo, uo, verdicts v)) \<and> printed w' = printed w"
  using assms
  by (auto simp: run_command_on_one_test_def os_system_def Let_def split: option.splits if_splits)

lemma run_tests_form:
  assumes "run_tests e p c js w = (Return ts, w')"
  shows "length ts = length js \<and> printed w' = printed w
         \<and> (\<forall>k<length js. \<exists>eo uo v wk wk'.
                ts ! k = (eo, uo, verdicts v)
                \<and> run_command_on_one_test e p (js ! k) c wk = (Return (eo, uo, verdicts v), wk'))"
  using assms
proof (induction js arbitrary: w ts)
  case Nil
  then show ?case by simp
next
  case (Cons j js)
  from Cons.prems obtain t w1 where
    t: "run_command_on_one_test e p j c w = (Return t, w1)"
    and r: "and_then (run_tests e p c js w1) (\<lambda>ts w2. (Return (t # ts), w2)) = (Return ts, w')"
    by (auto elim: and_then_ReturnE)
  from r obtain ts' where
    ts': "run_tests e p c js w1 = (Return ts', w')" and e: "ts = t # ts'"
    by (auto elim: and_then_ReturnE)
  note ih = Cons.IH [OF ts']
  from run_command_on_one_test_form [OF t] obtain eo uo v where
    f: "t = (eo, uo, verdicts v)" "printed w1 = printed w" by auto
  have "\<exists>eo uo v wk wk'. ts ! k = (eo, uo, verdicts v)
          \<and> run_command_on_one_test e p ((j # js) ! k) c wk = (Return (eo, uo, verdicts v), wk')"
    if "k < length (j # js)" for k
  proof (cases k)
    case 0
    then show ?thesis using t f e by auto
  next
    case (Suc k')
    with that have "k' < length js" by simp
    with ih show ?thesis using Suc e by simp
  qed
  then show ?case using ih e f by simp
qed

lemma input_file_to_string_form:
  assumes "input_file_to_string p js w = (Return inputs, w')"
  shows "length inputs = length js \<and> w' = w"
  using assms
proof (induction js arbitrary: inputs)
  case Nil
  then show ?case by simp
next
  case (Cons j js)
  then show ?case
    by (auto split: option.splits elim!: and_then_ReturnE)
qed

lemma printed_cleanup: "printed (cleanup e n b x w) = printed w"
  by (simp add: cleanup_def os_system_def)

lemma table_data_row:
  assumes "k < length ts" "length inputs = length ts"
  shows "table_data inputs ts ! Suc k = table_row k (inputs ! k) (ts ! k)"
  using assms by (simp add: table_data_def)


lemma getTestCasesCount_ReturnD:
  "getTestCasesCount p w = (Return n, w0) \<Longrightarrow> w0 = w"
  by (auto simp: getTestCasesCount_def listdir_def split: if_splits)

lemma printed_os_system: "printed (snd (os_system e c w)) = printed w"
  by (simp add: os_system_def)

lemma run_cached_report:
  assumes "run_cached e ext base pp tp w = (Return (), w')"
  shows "\<exists>inputs ts. printed w' = printed w @ [Table (table_data inputs ts)]
           \<and> length inputs = length ts
           \<and> (\<forall>k<length ts. \<exists>eo uo v wk wk'.
                  ts ! k = (eo, uo, verdicts v)
                  \<and> run_command_on_one_test e tp k (execute_command_of ext base) wk
                      = (Return (eo, uo, verdicts v), wk'))"
proof -
  from assms obtain n w0 where
    n: "getTestCasesCount tp w = (Return n, w0)"
    and r0: "(if ext \<in> set supported_extensions then
         (let (compile_status, w1) =
                (case compiler ext base of
                   None \<Rightarrow> (0, w0)
                 | Some c \<Rightarrow>
                     os_system e (c @ '' '' @ [CHR 0x27] @ pp @ ''.'' @ ext @ [CHR 0x27]) w0)
          in if compile_status = 0 then
               and_then (run_tests e tp (execute_command_of ext base) [0..<n] w1) (\<lambda>ts w2.
                 and_then (input_file_to_string tp [0..<n] w2) (\<lambda>inputs w3.
                   (Return (),
                    cleanup e n base ext
                      (w3\<lparr>printed := printed w3 @ [Table (table_data inputs ts)]\<rparr>))))
             else (Raise NameError, w1))
       else (Exit, print_line ''Supports only C, C++, Python, Java and Kotlin as of now.'' w0))
       = (Return (), w')"
    unfolding run_cached_def by (erule and_then_ReturnE)
  have w0: "w0 = w" using n by (rule getTestCasesCount_ReturnD)
  define cw where "cw = (case compiler ext base of
                   None \<Rightarrow> (0, w0)
                 | Some c \<Rightarrow>
                     os_system e (c @ '' '' @ [CHR 0x27] @ pp @ ''.'' @ ext @ [CHR 0x27]) w0)"
  have pw1: "printed (snd cw) = printed w"
    by (simp add: cw_def w0 printed_os_system split: option.splits)
  from r0 have r1: "and_then (run_tests e tp (execute_command_of ext base) [0..<n] (snd cw)) (\<lambda>ts w2.
                 and_then (input_file_to_string tp [0..<n] w2) (\<lambda>inputs w3.
                   (Return (),
                    cleanup e n base ext
                      (w3\<lparr>printed := printed w3 @ [Table (table_data inputs ts)]\<rparr>))))
         = (Return (), w')"
    unfolding cw_def [symmetric] by (cases cw) (auto split: if_splits)
  then obtain ts w2 where
    ts: "run_tests e tp (execute_command_of ext base) [0..<n] (snd cw) = (Return ts, w2)"
    and r2: "and_then (input_file_to_string tp [0..<n] w2) (\<lambda>inputs w3.
                   (Return (),
                    cleanup e n base ext
                      (w3\<lparr>printed := printed w3 @ [Table (table_data inputs ts)]\<rparr>)))
         = (Return (), w')"
    by (erule and_then_ReturnE)
  from r2 obtain inputs w3 where
    ins: "input_file_to_string tp [0..<n] w2 = (Return inputs, w3)"
    and w': "w' = cleanup e n base ext (w3\<lparr>printed := printed w3 @ [Table (table_data inputs ts)]\<rparr>)"
    by (auto elim: and_then_ReturnE)
  note tf = run_tests_form [OF ts]
  note inf = input_file_to_string_form [OF ins]
  have "printed w' = printed w @ [Table (table_data inputs ts)]"
    using tf inf pw1 by (simp add: w' printed_cleanup)
  moreover have "length inputs = length ts" using tf inf by simp
  moreover have "\<forall>k<length ts. \<exists>eo uo v wk wk'.
                  ts ! k = (eo, uo, verdicts v)
                  \<and> run_command_on_one_test e tp k (execute_command_of ext base) wk
                      = (Return (eo, uo, verdicts v), wk')"
    using tf by simp
  ultimately show ?thesis by blast
qed

lemma run_solution_Suc:
  "run_solution (Suc fuel) e a w =
     (if \<not> isfile e (os_path_join (cwd e) [hd (py_split (CHR ''.'') (args_source a))] @ ''.''
                       @ last (py_split (CHR ''.'') (args_source a)))
      then Some (Exit, print_line ''ERROR : No such file'' w)
      else if testcases_path_of e a \<in> dirs w
      then Some (run_cached e (last (py_split (CHR ''.'') (args_source a)))
                   (last (py_split (CHR ''/'') (hd (py_split (CHR ''.'') (args_source a)))))
                   (os_path_join (cwd e) [hd (py_split (CHR ''.'') (args_source a))])
                   (testcases_path_of e a) w)
      else (case download_problem_testcases e
                   (a\<lparr>args_problem := Some (problem_code_of a), args_force := True,
                      args_source := hd (py_split (CHR ''.'') (args_source a)) @ ''.''
                                       @ last (py_split (CHR ''.'') (args_source a))\<rparr>)
                   (print_line ''Test cases not found locally...'' w) of
              (Return u, w2) \<Rightarrow>
                run_solution fuel e
                  (a\<lparr>args_problem := Some (problem_code_of a), args_force := True,
                     args_source := hd (py_split (CHR ''.'') (args_source a)) @ ''.''
                                      @ last (py_split (CHR ''.'') (args_source a))\<rparr>)
                  (print_line ''Running your solution against sample cases...'' w2)
            | (Exit, w2) \<Rightarrow> Some (Exit, w2)
            | (Raise x, w2) \<Rightarrow> Some (Raise x, w2)))"
  by (simp only: run_solution.simps Let_def)

lemma run_cached_rows:
  assumes "run_cached e ext base pp tp w = (Return (), w')"
  shows "\<exists>inputs ts.
           printed w' \<noteq> [] \<and> last (printed w') = Table (table_data inputs ts)
           \<and> length inputs = length ts
           \<and> (\<forall>k<length ts. \<exists>eo uo v.
                  (\<exists>wk wk'. run_command_on_one_test e tp k (execute_command_of ext base) wk
                      = (Return (eo, uo, verdicts v), wk'))
                  \<and> table_data inputs ts ! Suc k =
                      [str (k + 1), inputs ! k, eo, if v = AC \<or> v = WA then uo else ''N/A'', verdicts v])"
proof -
  from run_cached_report [OF assms] obtain inputs ts where
    r: "printed w' = printed w @ [Table (table_data inputs ts)]" "length inputs = length ts"
      "\<forall>k<length ts. \<exists>eo uo v wk wk'.
                ts ! k = (eo, uo, verdicts v)
                \<and> run_command_on_one_test e tp k (execute_command_of ext base) wk
                    = (Return (eo, uo, verdicts v), wk')"
    by blast
  have rows: "\<exists>eo uo v.
          (\<exists>wk wk'. run_command_on_one_test e tp k (execute_command_of ext base) wk
               = (Return (eo, uo, verdicts v), wk'))
          \<and> table_data inputs ts ! Suc k =
              [str (k + 1), inputs ! k, eo, if v = AC \<or> v = WA then uo else ''N/A'', verdicts v]"
    if "k < length ts" for k
  proof -
    from r(3) that obtain eo uo v wk wk' where
      t: "ts ! k = (eo, uo, verdicts v)"
         "run_command_on_one_test e tp k (execute_command_of ext base) wk
            = (Return (eo, uo, verdicts v), wk')"
      by blast
    have "table_data inputs ts ! Suc k = table_row k (inputs ! k) (ts ! k)"
      using that r(2) by (rule table_data_row)
    then have "table_data inputs ts ! Suc k =
        [str (k + 1), inputs ! k, eo, if v = AC \<or> v = WA then uo else ''N/A'', verdicts v]"
      by (simp only: t(1) table_row_verdict)
    with t(2) show ?thesis by blast
  qed
  have "printed w' \<noteq> []" "last (printed w') = Table (table_data inputs ts)"
    by (simp_all add: r(1))
  with r(2) rows show ?thesis by blast
qed

text \<open>
  Claim C9. Whenever \<open>run_solution\<close> returns, the last thing it printed is the report
  table, and its row for case \<open>k\<close> is built from what \<open>run_command_on_one_test\<close> returned
  for that case: the verdict is one of the four, and the column of the user's output holds
  the produced output when the verdict is AC or WA, and \<open>N/A\<close> when it is TLE or RTE.
\<close>

theorem run_solution_report_rows:
  assumes "run_solution fuel e a w = Some (Return (), w')"
  shows "\<exists>inputs ts tp cmd.
           printed w' \<noteq> [] \<and> last (printed w') = Table (table_data inputs ts)
           \<and> length inputs = length ts
           \<and> (\<forall>k<length ts. \<exists>eo uo v.
                  (\<exists>wk wk'. run_command_on_one_test e tp k cmd wk = (Return (eo, uo, verdicts v), wk'))
                  \<and> table_data inputs ts ! Suc k =
                      [str (k + 1), inputs ! k, eo, if v = AC \<or> v = WA then uo else ''N/A'', verdicts v])"
  using assms
proof (induction fuel arbitrary: a w)
  case 0
  then show ?case by simp
next
  case (Suc fuel)
  let ?ext = "last (py_split (CHR ''.'') (args_source a))"
  let ?problem = "hd (py_split (CHR ''.'') (args_source a))"
  let ?a1 = "a\<lparr>args_problem := Some (problem_code_of a), args_force := True,
               args_source := ?problem @ ''.'' @ ?ext\<rparr>"
  from Suc.prems have isf: "isfile e (os_path_join (cwd e) [?problem] @ ''.'' @ ?ext)"
    unfolding run_solution_Suc by (simp split: if_splits)
  show ?case
  proof (cases "testcases_path_of e a \<in> dirs w")
    case True
    with isf Suc.prems have
      "run_cached e ?ext (last (py_split (CHR ''/'') ?problem)) (os_path_join (cwd e) [?problem])
         (testcases_path_of e a) w = (Return (), w')"
      unfolding run_solution_Suc by simp
    from run_cached_rows [OF this] show ?thesis by blast
  next
    case False
    with isf Suc.prems obtain a1 w2 where
      "run_solution fuel e a1 w2 = Some (Return (), w')"
      unfolding run_solution_Suc by (auto split: prod.splits result.splits)
    then show ?thesis by (rule Suc.IH)
  qed
qed


lemmas run_eval =
  run_solution_Suc run_cached_def testcases_path_of_def problem_code_of_def Let_def
  cache_dir_def os_path_join_def join_step_def startswith_def endswith_def
  getTestCasesCount_def listdir_def supported_extensions_def compiler_def execute_command_of_def
  os_system_def cleanup_def run_command_on_one_test_def test_command_def
  world_one_case_def empty_world_def args_A_def str.simps digit_def

theorem run_solution_report_rows_witness:
  "\<exists>inputs ts tp cmd.
     printed (snd (the (run_solution (Suc 0) env_six args_A world_one_case))) \<noteq> []
     \<and> last (printed (snd (the (run_solution (Suc 0) env_six args_A world_one_case))))
         = Table (table_data inputs ts)
     \<and> length inputs = length ts
     \<and> (\<forall>k<length ts. \<exists>eo uo v.
            (\<exists>wk wk'. run_command_on_one_test env_six tp k cmd wk = (Return (eo, uo, verdicts v), wk'))
            \<and> table_data inputs ts ! Suc k =
                [str (k + 1), inputs ! k, eo, if v = AC \<or> v = WA then uo else ''N/A'', verdicts v])"
proof -
  have n: "normalize_output ''6'' = ''6''" "normalize_output [CHR ''6'', CHR 0x0A] = ''6''"
    by (simp_all add: normalize_output_def strip_def lstrip_def rstrip_def is_space_def)
  have "\<exists>w'. run_solution (Suc 0) env_six args_A world_one_case = Some (Return (), w')"
    by (simp add: run_eval env_six_def n)
  then obtain w' where h: "run_solution (Suc 0) env_six args_A world_one_case = Some (Return (), w')" ..
  from run_solution_report_rows [OF h] show ?thesis by (simp only: h option.sel snd_conv)
qed

lemma run_cached_compile_error:
  assumes "p \<in> dirs w" and "ext \<in> set supported_extensions" and "compiler ext base = Some c"
    and "fst (shell e (c @ '' '' @ [CHR 0x27] @ pp @ ''.'' @ ext @ [CHR 0x27])) \<noteq> 0"
  shows "run_cached e ext base pp p w =
           (Raise NameError, w\<lparr>executed := executed w @ [c @ '' '' @ [CHR 0x27] @ pp @ ''.'' @ ext @ [CHR 0x27]]\<rparr>)"
  using assms by (simp add: run_cached_def getTestCasesCount_def listdir_def os_system_def)

text \<open>
  Claim C5, at a failing input: the case directory exists, the source is \<open>A.cpp\<close> and
  the compiler returns a non-zero status. No case is run (the only command executed is the
  compiler's), but the run ends in \<open>NameError\<close> from the call of the unbound name
  \<open>prin\<close>, with nothing printed: the compilation-error message is never reported.
\<close>

theorem run_solution_compile_error_raises:
  "run_solution (Suc 0) env_compile_fail args_A world_one_case =
     Some (Raise NameError,
           world_one_case\<lparr>executed :=
             [''clang++ -DONLINE_JUDGE -include /home/igorjan/206round/bits.h -O2 -std=c++17 -o A ''
                @ [CHR 0x27] @ ''/w/A.cpp'' @ [CHR 0x27]]\<rparr>)"
  by (simp add: run_eval env_compile_fail_def env_six_def)

end
